theory Spec2Isabelle
  imports Main "HOL-Library.Word"
begin

unbundle bit_operations_syntax

section \<open>Bytes, statuses and record tags\<close>

type_synonym bytes = "8 word list"

text \<open>
  \<open>Status\<close> of the source, reduced to the constructors that \<open>db/write_batch.cc\<close> builds.
  \<open>BatchTooLarge\<close> is the failure of \<open>LocalSavePoint::commit\<close> (see below).
\<close>

datatype Status =
    OK
  | NotFound
  | Corruption string
  | InvalidArgument string
  | NotSupported string
  | BatchTooLarge

definition ok :: "Status \<Rightarrow> bool" where
  "ok s = (s = OK)"

text \<open>
  Modelled from the spec: the enum \<open>ValueType\<close> lives in \<open>db/dbformat.h\<close>, which is not
  among the sources. The catalogue of tags is the one of the spec (section 3.1) and of the
  switch statements of \<open>ReadRecordFromWriteBatch\<close> and \<open>WriteBatch::Iterate\<close>; the byte
  values are those of the frozen on-disk format (Value is 0x01 and Deletion 0x00, as in the
  scenarios S1 and S3 of the spec). The development only uses that the sixteen bytes are
  pairwise distinct.
\<close>

datatype ValueType =
    kTypeDeletion
  | kTypeValue
  | kTypeMerge
  | kTypeLogData
  | kTypeColumnFamilyDeletion
  | kTypeColumnFamilyValue
  | kTypeColumnFamilyMerge
  | kTypeSingleDeletion
  | kTypeColumnFamilySingleDeletion
  | kTypeBeginPrepareXID
  | kTypeEndPrepareXID
  | kTypeCommitXID
  | kTypeRollbackXID
  | kTypeNoop
  | kTypeColumnFamilyRangeDeletion
  | kTypeRangeDeletion

fun tag :: "ValueType \<Rightarrow> 8 word" where
  "tag kTypeDeletion = 0x0"
| "tag kTypeValue = 0x1"
| "tag kTypeMerge = 0x2"
| "tag kTypeLogData = 0x3"
| "tag kTypeColumnFamilyDeletion = 0x4"
| "tag kTypeColumnFamilyValue = 0x5"
| "tag kTypeColumnFamilyMerge = 0x6"
| "tag kTypeSingleDeletion = 0x7"
| "tag kTypeColumnFamilySingleDeletion = 0x8"
| "tag kTypeBeginPrepareXID = 0x9"
| "tag kTypeEndPrepareXID = 0xA"
| "tag kTypeCommitXID = 0xB"
| "tag kTypeRollbackXID = 0xC"
| "tag kTypeNoop = 0xD"
| "tag kTypeColumnFamilyRangeDeletion = 0xE"
| "tag kTypeRangeDeletion = 0xF"

text \<open>The \<open>switch (*tag)\<close> of the source: which enumerator a byte is, if any.\<close>

definition tag_of :: "8 word \<Rightarrow> ValueType option" where
  "tag_of c =
     (if c = 0x0 then Some kTypeDeletion
      else if c = 0x1 then Some kTypeValue
      else if c = 0x2 then Some kTypeMerge
      else if c = 0x3 then Some kTypeLogData
      else if c = 0x4 then Some kTypeColumnFamilyDeletion
      else if c = 0x5 then Some kTypeColumnFamilyValue
      else if c = 0x6 then Some kTypeColumnFamilyMerge
      else if c = 0x7 then Some kTypeSingleDeletion
      else if c = 0x8 then Some kTypeColumnFamilySingleDeletion
      else if c = 0x9 then Some kTypeBeginPrepareXID
      else if c = 0xA then Some kTypeEndPrepareXID
      else if c = 0xB then Some kTypeCommitXID
      else if c = 0xC then Some kTypeRollbackXID
      else if c = 0xD then Some kTypeNoop
      else if c = 0xE then Some kTypeColumnFamilyRangeDeletion
      else if c = 0xF then Some kTypeRangeDeletion
      else None)"

text \<open>The enum \<open>ContentFlags\<close> of the source.\<close>

definition DEFERRED :: "32 word" where "DEFERRED = push_bit 0 1"
definition HAS_PUT :: "32 word" where "HAS_PUT = push_bit 1 1"
definition HAS_DELETE :: "32 word" where "HAS_DELETE = push_bit 2 1"
definition HAS_SINGLE_DELETE :: "32 word" where "HAS_SINGLE_DELETE = push_bit 3 1"
definition HAS_MERGE :: "32 word" where "HAS_MERGE = push_bit 4 1"
definition HAS_BEGIN_PREPARE :: "32 word" where "HAS_BEGIN_PREPARE = push_bit 5 1"
definition HAS_END_PREPARE :: "32 word" where "HAS_END_PREPARE = push_bit 6 1"
definition HAS_COMMIT :: "32 word" where "HAS_COMMIT = push_bit 7 1"
definition HAS_ROLLBACK :: "32 word" where "HAS_ROLLBACK = push_bit 8 1"
definition HAS_DELETE_RANGE :: "32 word" where "HAS_DELETE_RANGE = push_bit 9 1"

section \<open>Codec\<close>

text \<open>
  Modelled from the spec: \<open>util/coding.h\<close> is not among the sources. Section 4.1 of the
  spec: fixed 32-bit integers are little-endian; varints are base-128 little-endian and the
  32-bit reader fails if more than 5 bytes are needed; a length-prefixed string is a
  varint32 length followed by the raw bytes, and the reader advances past both.
\<close>

definition EncodeFixed32 :: "32 word \<Rightarrow> bytes" where
  "EncodeFixed32 v =
     [ucast v, ucast (drop_bit 8 v), ucast (drop_bit 16 v), ucast (drop_bit 24 v)]"

text \<open>Reading four bytes of a shorter buffer is out of bounds in the source; \<open>!\<close> leaves
  it unspecified here.\<close>

definition DecodeFixed32 :: "bytes \<Rightarrow> 32 word" where
  "DecodeFixed32 p =
     ucast (p ! 0) OR push_bit 8 (ucast (p ! 1)) OR push_bit 16 (ucast (p ! 2))
       OR push_bit 24 (ucast (p ! 3))"

function EncodeVarint :: "nat \<Rightarrow> bytes" where
  "EncodeVarint n =
     (if n < 128 then [of_nat n] else of_nat (128 + n mod 128) # EncodeVarint (n div 128))"
  by pat_completeness auto
termination
  by (relation "measure id") auto

declare EncodeVarint.simps [simp del]

definition PutVarint32 :: "bytes \<Rightarrow> 32 word \<Rightarrow> bytes" where
  "PutVarint32 dst v = dst @ EncodeVarint (unat v)"

text \<open>\<open>GetVarint k shift acc p\<close> reads at most \<open>k\<close> more bytes.\<close>

fun GetVarint :: "nat \<Rightarrow> nat \<Rightarrow> nat \<Rightarrow> bytes \<Rightarrow> (nat \<times> bytes) option" where
  "GetVarint 0 shift acc p = None"
| "GetVarint (Suc k) shift acc [] = None"
| "GetVarint (Suc k) shift acc (c # p) =
     (if 128 \<le> unat c then GetVarint k (shift + 7) (acc + (unat c - 128) * 2 ^ shift) p
      else Some (acc + unat c * 2 ^ shift, p))"

definition GetVarint32 :: "bytes \<Rightarrow> (32 word \<times> bytes) option" where
  "GetVarint32 input =
     (case GetVarint 5 0 0 input of
        None \<Rightarrow> None
      | Some (n, rest) \<Rightarrow> Some (of_nat n, rest))"

definition PutLengthPrefixedSlice :: "bytes \<Rightarrow> bytes \<Rightarrow> bytes" where
  "PutLengthPrefixedSlice dst s = PutVarint32 dst (of_nat (length s)) @ s"

definition PutLengthPrefixedSliceParts :: "bytes \<Rightarrow> bytes list \<Rightarrow> bytes" where
  "PutLengthPrefixedSliceParts dst parts =
     PutVarint32 dst (of_nat (sum_list (map length parts))) @ concat parts"

definition GetLengthPrefixedSlice :: "bytes \<Rightarrow> (bytes \<times> bytes) option" where
  "GetLengthPrefixedSlice input =
     (case GetVarint32 input of
        None \<Rightarrow> None
      | Some (len, rest) \<Rightarrow>
          if unat len \<le> length rest then Some (take (unat len) rest, drop (unat len) rest)
          else None)"

section \<open>The batch\<close>

text \<open>
  Modelled from the spec: the struct \<open>SavePoint\<close> is declared in
  \<open>include/rocksdb/write_batch.h\<close>, which is not among the sources. Section 3.3 of the
  spec: a tuple of payload size, count and content flags; it is cleared when all three
  are zero.
\<close>

record SavePoint =
  sp_size :: nat
  sp_count :: int
  sp_content_flags :: "32 word"

definition sp_clear :: SavePoint where
  "sp_clear = \<lparr>sp_size = 0, sp_count = 0, sp_content_flags = 0\<rparr>"

definition is_cleared :: "SavePoint \<Rightarrow> bool" where
  "is_cleared p = (sp_size p = 0 \<and> sp_count p = 0 \<and> sp_content_flags p = 0)"

text \<open>
  The fields of \<open>WriteBatch\<close> as its constructors initialise them. \<open>save_points\<close> is a
  pointer to a stack: \<open>None\<close> is \<open>nullptr\<close>, the head of the list is the top.
  \<open>max_bytes = 0\<close> means that no bound is set.
\<close>

record WriteBatch =
  save_points :: "SavePoint list option"
  wal_term_point :: SavePoint
  content_flags :: "32 word"
  max_bytes :: nat
  rep :: bytes

definition kHeader :: nat where
  "kHeader = 12"

definition resize :: "bytes \<Rightarrow> nat \<Rightarrow> bytes" where
  "resize r n = take n r @ replicate (n - length r) 0"

text \<open>\<open>WriteBatch(size_t reserved_bytes, size_t max_bytes)\<close>\<close>

definition WriteBatch_new :: "nat \<Rightarrow> WriteBatch" where
  "WriteBatch_new mb =
     \<lparr>save_points = None, wal_term_point = sp_clear, content_flags = 0, max_bytes = mb,
      rep = resize [] kHeader\<rparr>"

text \<open>\<open>WriteBatch(const std::string &rep)\<close>\<close>

definition WriteBatch_from :: "bytes \<Rightarrow> WriteBatch" where
  "WriteBatch_from r =
     \<lparr>save_points = None, wal_term_point = sp_clear, content_flags = DEFERRED, max_bytes = 0,
      rep = r\<rparr>"

definition GetDataSize :: "WriteBatch \<Rightarrow> nat" where
  "GetDataSize b = length (rep b)"

text \<open>
  \<open>WriteBatchInternal::Count\<close> returns the fixed32 at offset 8 as an \<open>int\<close>;
  \<open>SetCount\<close> stores an \<open>int\<close> there, truncated to 32 bits. Both are out of bounds in the
  source on a buffer shorter than the header.
\<close>

definition Count :: "WriteBatch \<Rightarrow> int" where
  "Count b = sint (DecodeFixed32 (drop 8 (rep b)))"

definition SetCount :: "WriteBatch \<Rightarrow> int \<Rightarrow> WriteBatch" where
  "SetCount b n = b\<lparr>rep := take 8 (rep b) @ EncodeFixed32 (word_of_int n) @ drop 12 (rep b)\<rparr>"

definition WriteBatch_Clear :: "WriteBatch \<Rightarrow> WriteBatch" where
  "WriteBatch_Clear b =
     b\<lparr>rep := resize [] kHeader,
       content_flags := 0,
       save_points := (case save_points b of None \<Rightarrow> None | Some st \<Rightarrow> Some []),
       wal_term_point := sp_clear\<rparr>"

definition MarkWalTerminationPoint :: "WriteBatch \<Rightarrow> WriteBatch" where
  "MarkWalTerminationPoint b =
     b\<lparr>wal_term_point :=
         \<lparr>sp_size = GetDataSize b, sp_count = Count b, sp_content_flags = content_flags b\<rparr>\<rparr>"

subsection \<open>The scoped save point of an append\<close>

text \<open>
  Modelled from the spec: the class \<open>LocalSavePoint\<close> is declared in
  \<open>db/write_batch_internal.h\<close>, which is not among the sources. Section 4.2 of the spec,
  steps 1 and 6: the constructor snapshots payload size, count and content flags; commit
  restores the snapshot and fails with \<open>batch_too_large\<close> if \<open>max_bytes\<close> is set and the
  payload size now exceeds it.
\<close>

definition LocalSavePoint :: "WriteBatch \<Rightarrow> SavePoint" where
  "LocalSavePoint b =
     \<lparr>sp_size = GetDataSize b, sp_count = Count b, sp_content_flags = content_flags b\<rparr>"

definition commit :: "SavePoint \<Rightarrow> WriteBatch \<Rightarrow> Status \<times> WriteBatch" where
  "commit save b =
     (if max_bytes b \<noteq> 0 \<and> max_bytes b < length (rep b) then
        (BatchTooLarge,
         (SetCount (b\<lparr>rep := resize (rep b) (sp_size save)\<rparr>) (sp_count save))
           \<lparr>content_flags := sp_content_flags save\<rparr>)
      else (OK, b))"

subsection \<open>Append operations\<close>

definition push_back :: "bytes \<Rightarrow> 8 word \<Rightarrow> bytes" where
  "push_back r c = r @ [c]"

definition WriteBatchInternal_Put ::
  "WriteBatch \<Rightarrow> 32 word \<Rightarrow> bytes \<Rightarrow> bytes \<Rightarrow> Status \<times> WriteBatch" where
  "WriteBatchInternal_Put b column_family_id key val =
     (let save = LocalSavePoint b;
          b = SetCount b (Count b + 1);
          r = (if column_family_id = 0 then push_back (rep b) (tag kTypeValue)
               else PutVarint32 (push_back (rep b) (tag kTypeColumnFamilyValue))
                      column_family_id);
          r = PutLengthPrefixedSlice r key;
          r = PutLengthPrefixedSlice r val;
          b = b\<lparr>rep := r, content_flags := content_flags b OR HAS_PUT\<rparr>
      in commit save b)"

definition WriteBatchInternal_Put_parts ::
  "WriteBatch \<Rightarrow> 32 word \<Rightarrow> bytes list \<Rightarrow> bytes list \<Rightarrow> Status \<times> WriteBatch" where
  "WriteBatchInternal_Put_parts b column_family_id key val =
     (let save = LocalSavePoint b;
          b = SetCount b (Count b + 1);
          r = (if column_family_id = 0 then push_back (rep b) (tag kTypeValue)
               else PutVarint32 (push_back (rep b) (tag kTypeColumnFamilyValue))
                      column_family_id);
          r = PutLengthPrefixedSliceParts r key;
          r = PutLengthPrefixedSliceParts r val;
          b = b\<lparr>rep := r, content_flags := content_flags b OR HAS_PUT\<rparr>
      in commit save b)"

definition WriteBatchInternal_Delete ::
  "WriteBatch \<Rightarrow> 32 word \<Rightarrow> bytes \<Rightarrow> Status \<times> WriteBatch" where
  "WriteBatchInternal_Delete b column_family_id key =
     (let save = LocalSavePoint b;
          b = SetCount b (Count b + 1);
          r = (if column_family_id = 0 then push_back (rep b) (tag kTypeDeletion)
               else PutVarint32 (push_back (rep b) (tag kTypeColumnFamilyDeletion))
                      column_family_id);
          r = PutLengthPrefixedSlice r key;
          b = b\<lparr>rep := r, content_flags := content_flags b OR HAS_DELETE\<rparr>
      in commit save b)"

definition WriteBatchInternal_Delete_parts ::
  "WriteBatch \<Rightarrow> 32 word \<Rightarrow> bytes list \<Rightarrow> Status \<times> WriteBatch" where
  "WriteBatchInternal_Delete_parts b column_family_id key =
     (let save = LocalSavePoint b;
          b = SetCount b (Count b + 1);
          r = (if column_family_id = 0 then push_back (rep b) (tag kTypeDeletion)
               else PutVarint32 (push_back (rep b) (tag kTypeColumnFamilyDeletion))
                      column_family_id);
          r = PutLengthPrefixedSliceParts r key;
          b = b\<lparr>rep := r, content_flags := content_flags b OR HAS_DELETE\<rparr>
      in commit save b)"

definition WriteBatchInternal_SingleDelete ::
  "WriteBatch \<Rightarrow> 32 word \<Rightarrow> bytes \<Rightarrow> Status \<times> WriteBatch" where
  "WriteBatchInternal_SingleDelete b column_family_id key =
     (let save = LocalSavePoint b;
          b = SetCount b (Count b + 1);
          r = (if column_family_id = 0 then push_back (rep b) (tag kTypeSingleDeletion)
               else PutVarint32 (push_back (rep b) (tag kTypeColumnFamilySingleDeletion))
                      column_family_id);
          r = PutLengthPrefixedSlice r key;
          b = b\<lparr>rep := r, content_flags := content_flags b OR HAS_SINGLE_DELETE\<rparr>
      in commit save b)"

definition WriteBatchInternal_SingleDelete_parts ::
  "WriteBatch \<Rightarrow> 32 word \<Rightarrow> bytes list \<Rightarrow> Status \<times> WriteBatch" where
  "WriteBatchInternal_SingleDelete_parts b column_family_id key =
     (let save = LocalSavePoint b;
          b = SetCount b (Count b + 1);
          r = (if column_family_id = 0 then push_back (rep b) (tag kTypeSingleDeletion)
               else PutVarint32 (push_back (rep b) (tag kTypeColumnFamilySingleDeletion))
                      column_family_id);
          r = PutLengthPrefixedSliceParts r key;
          b = b\<lparr>rep := r, content_flags := content_flags b OR HAS_SINGLE_DELETE\<rparr>
      in commit save b)"

definition WriteBatchInternal_DeleteRange ::
  "WriteBatch \<Rightarrow> 32 word \<Rightarrow> bytes \<Rightarrow> bytes \<Rightarrow> Status \<times> WriteBatch" where
  "WriteBatchInternal_DeleteRange b column_family_id begin_key end_key =
     (let save = LocalSavePoint b;
          b = SetCount b (Count b + 1);
          r = (if column_family_id = 0 then push_back (rep b) (tag kTypeRangeDeletion)
               else PutVarint32 (push_back (rep b) (tag kTypeColumnFamilyRangeDeletion))
                      column_family_id);
          r = PutLengthPrefixedSlice r begin_key;
          r = PutLengthPrefixedSlice r end_key;
          b = b\<lparr>rep := r, content_flags := content_flags b OR HAS_DELETE_RANGE\<rparr>
      in commit save b)"

definition WriteBatchInternal_DeleteRange_parts ::
  "WriteBatch \<Rightarrow> 32 word \<Rightarrow> bytes list \<Rightarrow> bytes list \<Rightarrow> Status \<times> WriteBatch" where
  "WriteBatchInternal_DeleteRange_parts b column_family_id begin_key end_key =
     (let save = LocalSavePoint b;
          b = SetCount b (Count b + 1);
          r = (if column_family_id = 0 then push_back (rep b) (tag kTypeRangeDeletion)
               else PutVarint32 (push_back (rep b) (tag kTypeColumnFamilyRangeDeletion))
                      column_family_id);
          r = PutLengthPrefixedSliceParts r begin_key;
          r = PutLengthPrefixedSliceParts r end_key;
          b = b\<lparr>rep := r, content_flags := content_flags b OR HAS_DELETE_RANGE\<rparr>
      in commit save b)"

definition WriteBatchInternal_Merge ::
  "WriteBatch \<Rightarrow> 32 word \<Rightarrow> bytes \<Rightarrow> bytes \<Rightarrow> Status \<times> WriteBatch" where
  "WriteBatchInternal_Merge b column_family_id key val =
     (let save = LocalSavePoint b;
          b = SetCount b (Count b + 1);
          r = (if column_family_id = 0 then push_back (rep b) (tag kTypeMerge)
               else PutVarint32 (push_back (rep b) (tag kTypeColumnFamilyMerge))
                      column_family_id);
          r = PutLengthPrefixedSlice r key;
          r = PutLengthPrefixedSlice r val;
          b = b\<lparr>rep := r, content_flags := content_flags b OR HAS_MERGE\<rparr>
      in commit save b)"

definition WriteBatchInternal_Merge_parts ::
  "WriteBatch \<Rightarrow> 32 word \<Rightarrow> bytes list \<Rightarrow> bytes list \<Rightarrow> Status \<times> WriteBatch" where
  "WriteBatchInternal_Merge_parts b column_family_id key val =
     (let save = LocalSavePoint b;
          b = SetCount b (Count b + 1);
          r = (if column_family_id = 0 then push_back (rep b) (tag kTypeMerge)
               else PutVarint32 (push_back (rep b) (tag kTypeColumnFamilyMerge))
                      column_family_id);
          r = PutLengthPrefixedSliceParts r key;
          r = PutLengthPrefixedSliceParts r val;
          b = b\<lparr>rep := r, content_flags := content_flags b OR HAS_MERGE\<rparr>
      in commit save b)"

definition WriteBatch_PutLogData :: "WriteBatch \<Rightarrow> bytes \<Rightarrow> Status \<times> WriteBatch" where
  "WriteBatch_PutLogData b blob =
     (let save = LocalSavePoint b;
          r = push_back (rep b) (tag kTypeLogData);
          r = PutLengthPrefixedSlice r blob;
          b = b\<lparr>rep := r\<rparr>
      in commit save b)"

definition WriteBatchInternal_InsertNoop :: "WriteBatch \<Rightarrow> Status \<times> WriteBatch" where
  "WriteBatchInternal_InsertNoop b = (OK, b\<lparr>rep := push_back (rep b) (tag kTypeNoop)\<rparr>)"

text \<open>
  \<open>WriteBatchInternal::MarkEndPrepare\<close> asserts that the byte at offset 12 is the no-op
  tag; the assertion is the predicate \<open>MarkEndPrepare_pre\<close>, and the function below is what
  runs after it.
\<close>

definition MarkEndPrepare_pre :: "WriteBatch \<Rightarrow> bool" where
  "MarkEndPrepare_pre b = (12 < length (rep b) \<and> rep b ! 12 = tag kTypeNoop)"

definition WriteBatchInternal_MarkEndPrepare ::
  "WriteBatch \<Rightarrow> bytes \<Rightarrow> Status \<times> WriteBatch" where
  "WriteBatchInternal_MarkEndPrepare b xid =
     (let b = b\<lparr>save_points := (case save_points b of None \<Rightarrow> None | Some st \<Rightarrow> Some [])\<rparr>;
          r = (rep b)[12 := tag kTypeBeginPrepareXID];
          r = push_back r (tag kTypeEndPrepareXID);
          r = PutLengthPrefixedSlice r xid;
          b = b\<lparr>rep := r,
                content_flags := content_flags b OR HAS_END_PREPARE OR HAS_BEGIN_PREPARE\<rparr>
      in (OK, b))"

definition WriteBatchInternal_MarkCommit ::
  "WriteBatch \<Rightarrow> bytes \<Rightarrow> Status \<times> WriteBatch" where
  "WriteBatchInternal_MarkCommit b xid =
     (let r = push_back (rep b) (tag kTypeCommitXID);
          r = PutLengthPrefixedSlice r xid;
          b = b\<lparr>rep := r, content_flags := content_flags b OR HAS_COMMIT\<rparr>
      in (OK, b))"

definition WriteBatchInternal_MarkRollback ::
  "WriteBatch \<Rightarrow> bytes \<Rightarrow> Status \<times> WriteBatch" where
  "WriteBatchInternal_MarkRollback b xid =
     (let r = push_back (rep b) (tag kTypeRollbackXID);
          r = PutLengthPrefixedSlice r xid;
          b = b\<lparr>rep := r, content_flags := content_flags b OR HAS_ROLLBACK\<rparr>
      in (OK, b))"

subsection \<open>Save points\<close>

definition WriteBatch_SetSavePoint :: "WriteBatch \<Rightarrow> WriteBatch" where
  "WriteBatch_SetSavePoint b =
     (let st = (case save_points b of None \<Rightarrow> [] | Some st \<Rightarrow> st)
      in b\<lparr>save_points :=
             Some (\<lparr>sp_size = GetDataSize b, sp_count = Count b,
                    sp_content_flags = content_flags b\<rparr> # st)\<rparr>)"

definition WriteBatch_RollbackToSavePoint :: "WriteBatch \<Rightarrow> Status \<times> WriteBatch" where
  "WriteBatch_RollbackToSavePoint b =
     (case save_points b of
        None \<Rightarrow> (NotFound, b)
      | Some [] \<Rightarrow> (NotFound, b)
      | Some (savepoint # st) \<Rightarrow>
          (let b = b\<lparr>save_points := Some st\<rparr>
           in if sp_size savepoint = length (rep b) then (OK, b)
              else if sp_size savepoint = 0 then (OK, WriteBatch_Clear b)
              else (OK, (SetCount (b\<lparr>rep := resize (rep b) (sp_size savepoint)\<rparr>)
                           (sp_count savepoint))
                          \<lparr>content_flags := sp_content_flags savepoint\<rparr>)))"

definition WriteBatch_PopSavePoint :: "WriteBatch \<Rightarrow> Status \<times> WriteBatch" where
  "WriteBatch_PopSavePoint b =
     (case save_points b of
        None \<Rightarrow> (NotFound, b)
      | Some [] \<Rightarrow> (NotFound, b)
      | Some (savepoint # st) \<Rightarrow> (OK, b\<lparr>save_points := Some st\<rparr>))"

subsection \<open>Sequences of appends\<close>

text \<open>
  The append operations of the public interface as data, so that a claim can speak of
  any sequence of them. \<open>run_appends\<close> performs them in order; a failed append leaves an
  error status behind and the next append is performed all the same, as a caller that
  ignores the status would.
\<close>

datatype append_op =
    OpPut "32 word" bytes bytes
  | OpPutParts "32 word" "bytes list" "bytes list"
  | OpDelete "32 word" bytes
  | OpDeleteParts "32 word" "bytes list"
  | OpSingleDelete "32 word" bytes
  | OpSingleDeleteParts "32 word" "bytes list"
  | OpDeleteRange "32 word" bytes bytes
  | OpDeleteRangeParts "32 word" "bytes list" "bytes list"
  | OpMerge "32 word" bytes bytes
  | OpMergeParts "32 word" "bytes list" "bytes list"
  | OpPutLogData bytes
  | OpInsertNoop
  | OpMarkEndPrepare bytes
  | OpMarkCommit bytes
  | OpMarkRollback bytes

fun append :: "WriteBatch \<Rightarrow> append_op \<Rightarrow> Status \<times> WriteBatch" where
  "append b (OpPut cf k v) = WriteBatchInternal_Put b cf k v"
| "append b (OpPutParts cf k v) = WriteBatchInternal_Put_parts b cf k v"
| "append b (OpDelete cf k) = WriteBatchInternal_Delete b cf k"
| "append b (OpDeleteParts cf k) = WriteBatchInternal_Delete_parts b cf k"
| "append b (OpSingleDelete cf k) = WriteBatchInternal_SingleDelete b cf k"
| "append b (OpSingleDeleteParts cf k) = WriteBatchInternal_SingleDelete_parts b cf k"
| "append b (OpDeleteRange cf k v) = WriteBatchInternal_DeleteRange b cf k v"
| "append b (OpDeleteRangeParts cf k v) = WriteBatchInternal_DeleteRange_parts b cf k v"
| "append b (OpMerge cf k v) = WriteBatchInternal_Merge b cf k v"
| "append b (OpMergeParts cf k v) = WriteBatchInternal_Merge_parts b cf k v"
| "append b (OpPutLogData blob) = WriteBatch_PutLogData b blob"
| "append b OpInsertNoop = WriteBatchInternal_InsertNoop b"
| "append b (OpMarkEndPrepare xid) = WriteBatchInternal_MarkEndPrepare b xid"
| "append b (OpMarkCommit xid) = WriteBatchInternal_MarkCommit b xid"
| "append b (OpMarkRollback xid) = WriteBatchInternal_MarkRollback b xid"

text \<open>Which appends increment the header count, and which one empties the stack.\<close>

fun counted :: "append_op \<Rightarrow> bool" where
  "counted (OpPutLogData blob) = False"
| "counted OpInsertNoop = False"
| "counted (OpMarkEndPrepare xid) = False"
| "counted (OpMarkCommit xid) = False"
| "counted (OpMarkRollback xid) = False"
| "counted x = True"

fun clears_save_points :: "append_op \<Rightarrow> bool" where
  "clears_save_points (OpMarkEndPrepare xid) = True"
| "clears_save_points x = False"

fun run_appends :: "WriteBatch \<Rightarrow> append_op list \<Rightarrow> WriteBatch" where
  "run_appends b [] = b"
| "run_appends b (x # xs) = run_appends (snd (append b x)) xs"

section \<open>Decoding and iteration\<close>

text \<open>
  What \<open>ReadRecordFromWriteBatch\<close> hands back through its out-parameters. The source
  leaves an out-parameter that a tag does not set at the value of the previous record;
  \<open>WriteBatch::Iterate\<close> never reads such a field, and here it is empty.
\<close>

record parsed =
  p_tag :: ValueType
  p_column_family :: "32 word"
  p_key :: bytes
  p_value :: bytes
  p_blob :: bytes
  p_xid :: bytes

text \<open>
  The shared tails of the switch: the column family of the CF-qualified tags, then the
  fall-through into the fields of the plain tag, each failure with the message of its case.
\<close>

definition get_cf ::
  "string \<Rightarrow> bytes \<Rightarrow> (32 word \<Rightarrow> bytes \<Rightarrow> Status + parsed \<times> bytes) \<Rightarrow> Status + parsed \<times> bytes" where
  "get_cf msg input cont =
     (case GetVarint32 input of
        None \<Rightarrow> Inl (Corruption msg)
      | Some (column_family, input) \<Rightarrow> cont column_family input)"

definition get_key_value ::
  "string \<Rightarrow> ValueType \<Rightarrow> 32 word \<Rightarrow> bytes \<Rightarrow> Status + parsed \<times> bytes" where
  "get_key_value msg t column_family input =
     (case GetLengthPrefixedSlice input of
        None \<Rightarrow> Inl (Corruption msg)
      | Some (key, input) \<Rightarrow>
          (case GetLengthPrefixedSlice input of
             None \<Rightarrow> Inl (Corruption msg)
           | Some (val, input) \<Rightarrow>
               Inr (\<lparr>p_tag = t, p_column_family = column_family, p_key = key, p_value = val,
                     p_blob = [], p_xid = []\<rparr>, input)))"

definition get_key ::
  "string \<Rightarrow> ValueType \<Rightarrow> 32 word \<Rightarrow> bytes \<Rightarrow> Status + parsed \<times> bytes" where
  "get_key msg t column_family input =
     (case GetLengthPrefixedSlice input of
        None \<Rightarrow> Inl (Corruption msg)
      | Some (key, input) \<Rightarrow>
          Inr (\<lparr>p_tag = t, p_column_family = column_family, p_key = key, p_value = [],
                p_blob = [], p_xid = []\<rparr>, input))"

definition get_xid :: "string \<Rightarrow> ValueType \<Rightarrow> bytes \<Rightarrow> Status + parsed \<times> bytes" where
  "get_xid msg t input =
     (case GetLengthPrefixedSlice input of
        None \<Rightarrow> Inl (Corruption msg)
      | Some (xid, input) \<Rightarrow>
          Inr (\<lparr>p_tag = t, p_column_family = 0, p_key = [], p_value = [], p_blob = [],
                p_xid = xid\<rparr>, input))"

fun read_fields :: "ValueType \<Rightarrow> bytes \<Rightarrow> Status + parsed \<times> bytes" where
  "read_fields kTypeColumnFamilyValue input =
     get_cf ''bad WriteBatch Put'' input (get_key_value ''bad WriteBatch Put'' kTypeColumnFamilyValue)"
| "read_fields kTypeValue input = get_key_value ''bad WriteBatch Put'' kTypeValue 0 input"
| "read_fields kTypeColumnFamilyDeletion input =
     get_cf ''bad WriteBatch Delete'' input (get_key ''bad WriteBatch Delete'' kTypeColumnFamilyDeletion)"
| "read_fields kTypeColumnFamilySingleDeletion input =
     get_cf ''bad WriteBatch Delete'' input
       (get_key ''bad WriteBatch Delete'' kTypeColumnFamilySingleDeletion)"
| "read_fields kTypeDeletion input = get_key ''bad WriteBatch Delete'' kTypeDeletion 0 input"
| "read_fields kTypeSingleDeletion input =
     get_key ''bad WriteBatch Delete'' kTypeSingleDeletion 0 input"
| "read_fields kTypeColumnFamilyRangeDeletion input =
     get_cf ''bad WriteBatch DeleteRange'' input
       (get_key_value ''bad WriteBatch DeleteRange'' kTypeColumnFamilyRangeDeletion)"
| "read_fields kTypeRangeDeletion input =
     get_key_value ''bad WriteBatch DeleteRange'' kTypeRangeDeletion 0 input"
| "read_fields kTypeColumnFamilyMerge input =
     get_cf ''bad WriteBatch Merge'' input (get_key_value ''bad WriteBatch Merge'' kTypeColumnFamilyMerge)"
| "read_fields kTypeMerge input = get_key_value ''bad WriteBatch Merge'' kTypeMerge 0 input"
| "read_fields kTypeLogData input =
     (case GetLengthPrefixedSlice input of
        None \<Rightarrow> Inl (Corruption ''bad WriteBatch Blob'')
      | Some (blob, input) \<Rightarrow>
          Inr (\<lparr>p_tag = kTypeLogData, p_column_family = 0, p_key = [], p_value = [],
                p_blob = blob, p_xid = []\<rparr>, input))"
| "read_fields kTypeNoop input =
     Inr (\<lparr>p_tag = kTypeNoop, p_column_family = 0, p_key = [], p_value = [], p_blob = [],
           p_xid = []\<rparr>, input)"
| "read_fields kTypeBeginPrepareXID input =
     Inr (\<lparr>p_tag = kTypeBeginPrepareXID, p_column_family = 0, p_key = [], p_value = [],
           p_blob = [], p_xid = []\<rparr>, input)"
| "read_fields kTypeEndPrepareXID input = get_xid ''bad EndPrepare XID'' kTypeEndPrepareXID input"
| "read_fields kTypeCommitXID input = get_xid ''bad Commit XID'' kTypeCommitXID input"
| "read_fields kTypeRollbackXID input = get_xid ''bad Rollback XID'' kTypeRollbackXID input"

text \<open>
  The caller has taken the tag byte \<open>c\<close> off the input (the loop runs on a non-empty
  input only).
\<close>

definition ReadRecordFromWriteBatch :: "8 word \<Rightarrow> bytes \<Rightarrow> Status + parsed \<times> bytes" where
  "ReadRecordFromWriteBatch c input =
     (case tag_of c of
        None \<Rightarrow> Inl (Corruption ''unknown WriteBatch tag'')
      | Some t \<Rightarrow> read_fields t input)"

text \<open>Every decoder returns a suffix of its input, so the loop below terminates.\<close>

lemma GetVarint_length:
  "GetVarint k shift acc p = Some (n, rest) \<Longrightarrow> length rest \<le> length p"
  by (induction k shift acc p rule: GetVarint.induct) (auto split: if_splits)

lemma GetVarint32_length: "GetVarint32 p = Some (v, rest) \<Longrightarrow> length rest \<le> length p"
  by (auto simp: GetVarint32_def split: option.splits dest: GetVarint_length)

lemma GetLengthPrefixedSlice_length:
  "GetLengthPrefixedSlice p = Some (s, rest) \<Longrightarrow> length rest \<le> length p"
  by (auto simp: GetLengthPrefixedSlice_def split: option.splits if_splits dest!: GetVarint32_length)

lemma get_key_value_length:
  "get_key_value msg t cf p = Inr (r, rest) \<Longrightarrow> length rest \<le> length p"
  by (auto simp: get_key_value_def split: option.splits dest!: GetLengthPrefixedSlice_length)

lemma get_key_length: "get_key msg t cf p = Inr (r, rest) \<Longrightarrow> length rest \<le> length p"
  by (auto simp: get_key_def split: option.splits dest!: GetLengthPrefixedSlice_length)

lemma get_xid_length: "get_xid msg t p = Inr (r, rest) \<Longrightarrow> length rest \<le> length p"
  by (auto simp: get_xid_def split: option.splits dest!: GetLengthPrefixedSlice_length)

lemma read_fields_length: "read_fields t p = Inr (r, rest) \<Longrightarrow> length rest \<le> length p"
  by (cases t)
    (auto simp: get_cf_def split: option.splits
      dest!: GetLengthPrefixedSlice_length GetVarint32_length get_key_value_length
        get_key_length get_xid_length)

lemma ReadRecordFromWriteBatch_length:
  "ReadRecordFromWriteBatch c p = Inr (r, rest) \<Longrightarrow> length rest \<le> length p"
  by (auto simp: ReadRecordFromWriteBatch_def split: option.splits dest: read_fields_length)


subsection \<open>Handlers\<close>

text \<open>
  \<open>WriteBatch::Handler\<close> with its state \<open>'h\<close> made explicit. A callback that returns a
  \<open>Status\<close> may also not return at all (\<open>None\<close>): the commit callback of the memtable
  inserter re-enters \<open>Iterate\<close>.
\<close>

record 'h Handler =
  PutCF :: "32 word \<Rightarrow> bytes \<Rightarrow> bytes \<Rightarrow> 'h \<Rightarrow> (Status \<times> 'h) option"
  DeleteCF :: "32 word \<Rightarrow> bytes \<Rightarrow> 'h \<Rightarrow> (Status \<times> 'h) option"
  SingleDeleteCF :: "32 word \<Rightarrow> bytes \<Rightarrow> 'h \<Rightarrow> (Status \<times> 'h) option"
  DeleteRangeCF :: "32 word \<Rightarrow> bytes \<Rightarrow> bytes \<Rightarrow> 'h \<Rightarrow> (Status \<times> 'h) option"
  MergeCF :: "32 word \<Rightarrow> bytes \<Rightarrow> bytes \<Rightarrow> 'h \<Rightarrow> (Status \<times> 'h) option"
  LogData :: "bytes \<Rightarrow> 'h \<Rightarrow> 'h"
  MarkBeginPrepare :: "'h \<Rightarrow> (Status \<times> 'h) option"
  MarkEndPrepare :: "bytes \<Rightarrow> 'h \<Rightarrow> (Status \<times> 'h) option"
  MarkCommit :: "bytes \<Rightarrow> 'h \<Rightarrow> (Status \<times> 'h) option"
  MarkRollback :: "bytes \<Rightarrow> 'h \<Rightarrow> (Status \<times> 'h) option"
  Continue :: "'h \<Rightarrow> bool \<times> 'h"

text \<open>
  The second switch of \<open>Iterate\<close>. The status of the five mutation callbacks is kept and
  \<open>found\<close> is incremented; the status of the four marker callbacks is dropped. The
  \<open>default\<close> case cannot be reached: \<open>ReadRecordFromWriteBatch\<close> has refused the tag.
\<close>

definition counted_call :: "(Status \<times> 'h) option \<Rightarrow> (Status \<times> int \<times> 'h) option" where
  "counted_call r = (case r of None \<Rightarrow> None | Some (s, h) \<Rightarrow> Some (s, 1, h))"

definition marker_call :: "(Status \<times> 'h) option \<Rightarrow> (Status \<times> int \<times> 'h) option" where
  "marker_call r = (case r of None \<Rightarrow> None | Some (s, h) \<Rightarrow> Some (OK, 0, h))"

fun dispatch_tag ::
  "'h Handler \<Rightarrow> ValueType \<Rightarrow> parsed \<Rightarrow> 'h \<Rightarrow> (Status \<times> int \<times> 'h) option" where
  "dispatch_tag H kTypeColumnFamilyValue r h =
     counted_call (PutCF H (p_column_family r) (p_key r) (p_value r) h)"
| "dispatch_tag H kTypeValue r h =
     counted_call (PutCF H (p_column_family r) (p_key r) (p_value r) h)"
| "dispatch_tag H kTypeColumnFamilyDeletion r h =
     counted_call (DeleteCF H (p_column_family r) (p_key r) h)"
| "dispatch_tag H kTypeDeletion r h =
     counted_call (DeleteCF H (p_column_family r) (p_key r) h)"
| "dispatch_tag H kTypeColumnFamilySingleDeletion r h =
     counted_call (SingleDeleteCF H (p_column_family r) (p_key r) h)"
| "dispatch_tag H kTypeSingleDeletion r h =
     counted_call (SingleDeleteCF H (p_column_family r) (p_key r) h)"
| "dispatch_tag H kTypeColumnFamilyRangeDeletion r h =
     counted_call (DeleteRangeCF H (p_column_family r) (p_key r) (p_value r) h)"
| "dispatch_tag H kTypeRangeDeletion r h =
     counted_call (DeleteRangeCF H (p_column_family r) (p_key r) (p_value r) h)"
| "dispatch_tag H kTypeColumnFamilyMerge r h =
     counted_call (MergeCF H (p_column_family r) (p_key r) (p_value r) h)"
| "dispatch_tag H kTypeMerge r h =
     counted_call (MergeCF H (p_column_family r) (p_key r) (p_value r) h)"
| "dispatch_tag H kTypeLogData r h = Some (OK, 0, LogData H (p_blob r) h)"
| "dispatch_tag H kTypeBeginPrepareXID r h = marker_call (MarkBeginPrepare H h)"
| "dispatch_tag H kTypeEndPrepareXID r h = marker_call (MarkEndPrepare H (p_xid r) h)"
| "dispatch_tag H kTypeCommitXID r h = marker_call (MarkCommit H (p_xid r) h)"
| "dispatch_tag H kTypeRollbackXID r h = marker_call (MarkRollback H (p_xid r) h)"
| "dispatch_tag H kTypeNoop r h = Some (OK, 0, h)"

definition dispatch :: "'h Handler \<Rightarrow> parsed \<Rightarrow> 'h \<Rightarrow> (Status \<times> int \<times> 'h) option" where
  "dispatch H r h = dispatch_tag H (p_tag r) r h"

text \<open>
  How the loop ends: by a \<open>return\<close> in its body, or by one of the three conjuncts of
  \<open>while (s.ok() && !input.empty() && handler->Continue())\<close> being false.
\<close>

datatype 'h loop_exit =
    Return Status 'h
  | Exhausted int 'h
  | Stopped int 'h
  | Failed Status int 'h

function Iterate_loop :: "'h Handler \<Rightarrow> bytes \<Rightarrow> int \<Rightarrow> 'h \<Rightarrow> 'h loop_exit option" where
  "Iterate_loop H [] found h = Some (Exhausted found h)"
| "Iterate_loop H (c # input) found h =
     (case Continue H h of
        (False, h) \<Rightarrow> Some (Stopped found h)
      | (True, h) \<Rightarrow>
          (case ReadRecordFromWriteBatch c input of
             Inl s \<Rightarrow> Some (Return s h)
           | Inr (r, input) \<Rightarrow>
               (case dispatch H r h of
                  None \<Rightarrow> None
                | Some (s, n, h) \<Rightarrow>
                    if ok s then Iterate_loop H input (found + n) h
                    else Some (Failed s (found + n) h))))"
  by pat_completeness auto
termination
  by (relation "measure (\<lambda>(H, input, found, h). length input)")
    (auto dest!: ReadRecordFromWriteBatch_length)

definition Iterate :: "'h Handler \<Rightarrow> WriteBatch \<Rightarrow> 'h \<Rightarrow> (Status \<times> 'h) option" where
  "Iterate H b h =
     (if length (rep b) < kHeader then Some (Corruption ''malformed WriteBatch (too small)'', h)
      else
        (case Iterate_loop H (drop kHeader (rep b)) 0 h of
           None \<Rightarrow> None
         | Some (Return s h) \<Rightarrow> Some (s, h)
         | Some (Failed s found h) \<Rightarrow> Some (s, h)
         | Some (Exhausted found h) \<Rightarrow>
             if found \<noteq> Count b then Some (Corruption ''WriteBatch has wrong count'', h)
             else Some (OK, h)
         | Some (Stopped found h) \<Rightarrow>
             if found \<noteq> Count b then Some (Corruption ''WriteBatch has wrong count'', h)
             else Some (OK, h)))"

subsection \<open>Content classification\<close>

definition BatchContentClassifier :: "32 word Handler" where
  "BatchContentClassifier =
     \<lparr>PutCF = (\<lambda>cf k v content_flags. Some (OK, content_flags OR HAS_PUT)),
      DeleteCF = (\<lambda>cf k content_flags. Some (OK, content_flags OR HAS_DELETE)),
      SingleDeleteCF = (\<lambda>cf k content_flags. Some (OK, content_flags OR HAS_SINGLE_DELETE)),
      DeleteRangeCF = (\<lambda>cf k v content_flags. Some (OK, content_flags OR HAS_DELETE_RANGE)),
      MergeCF = (\<lambda>cf k v content_flags. Some (OK, content_flags OR HAS_MERGE)),
      LogData = (\<lambda>blob content_flags. content_flags),
      MarkBeginPrepare = (\<lambda>content_flags. Some (OK, content_flags OR HAS_BEGIN_PREPARE)),
      MarkEndPrepare = (\<lambda>xid content_flags. Some (OK, content_flags OR HAS_END_PREPARE)),
      MarkCommit = (\<lambda>xid content_flags. Some (OK, content_flags OR HAS_COMMIT)),
      MarkRollback = (\<lambda>xid content_flags. Some (OK, content_flags OR HAS_ROLLBACK)),
      Continue = (\<lambda>content_flags. (True, content_flags))\<rparr>"

definition ComputeContentFlags :: "WriteBatch \<Rightarrow> (32 word \<times> WriteBatch) option" where
  "ComputeContentFlags b =
     (let rv = content_flags b
      in if rv AND DEFERRED \<noteq> 0 then
           (case Iterate BatchContentClassifier b 0 of
              None \<Rightarrow> None
            | Some (s, classifier) \<Rightarrow> Some (classifier, b\<lparr>content_flags := classifier\<rparr>))
         else Some (rv, b))"

definition HasPut :: "WriteBatch \<Rightarrow> (bool \<times> WriteBatch) option" where
  "HasPut b =
     (case ComputeContentFlags b of
        None \<Rightarrow> None
      | Some (rv, b) \<Rightarrow> Some (rv AND HAS_PUT \<noteq> 0, b))"

definition HasDelete :: "WriteBatch \<Rightarrow> (bool \<times> WriteBatch) option" where
  "HasDelete b =
     (case ComputeContentFlags b of
        None \<Rightarrow> None
      | Some (rv, b) \<Rightarrow> Some (rv AND HAS_DELETE \<noteq> 0, b))"

subsection \<open>Appending one batch to another\<close>

text \<open>
  \<open>src_len\<close> is a \<open>size_t\<close>, here of 64 bits: the subtraction of the header size wraps
  around when the size is smaller. \<open>dst->rep_.append(src->rep_.data() + kHeader, src_len)\<close>
  copies exactly \<open>src_len\<close> bytes from offset 12 of the buffer of the source. With
  \<open>wal_only\<close> the length is that of the termination point, which
  \<open>RollbackToSavePoint\<close> leaves as it is when it shortens the buffer; the bytes that the
  source then reads past the end of the buffer are unspecified (\<open>!\<close> out of range).
\<close>

definition size_sub :: "nat \<Rightarrow> nat \<Rightarrow> nat" where
  "size_sub a b = (if b \<le> a then a - b else 2 ^ 64 - (b - a))"

definition WriteBatchInternal_Append ::
  "WriteBatch \<Rightarrow> WriteBatch \<Rightarrow> bool \<Rightarrow> Status \<times> WriteBatch" where
  "WriteBatchInternal_Append dst src wal_only =
     (let batch_end = wal_term_point src;
          (src_len, src_count, src_flags) =
             (if wal_only \<and> \<not> is_cleared batch_end
              then (size_sub (sp_size batch_end) kHeader, sp_count batch_end,
                    sp_content_flags batch_end)
              else (size_sub (length (rep src)) kHeader, Count src, content_flags src));
          dst = SetCount dst (Count dst + src_count);
          dst = dst\<lparr>rep := rep dst @ map (\<lambda>i. rep src ! (kHeader + i)) [0..<src_len]\<rparr>;
          dst = dst\<lparr>content_flags := content_flags dst OR src_flags\<rparr>
      in (OK, dst))"

section \<open>The bytes of an append\<close>

text \<open>
  What each append operation adds to the buffer and to the content flags, read off the
  bodies of the operations above; \<open>lp\<close> is a length-prefixed string and \<open>cf_tag\<close> the choice
  between a plain tag and a CF-qualified tag followed by the column family.
\<close>

definition lp :: "bytes \<Rightarrow> bytes" where
  "lp s = EncodeVarint (unat (of_nat (length s) :: 32 word)) @ s"

definition cf_tag :: "ValueType \<Rightarrow> ValueType \<Rightarrow> 32 word \<Rightarrow> bytes" where
  "cf_tag t tcf cf = (if cf = 0 then [tag t] else tag tcf # EncodeVarint (unat cf))"

fun encoded :: "append_op \<Rightarrow> bytes" where
  "encoded (OpPut cf k v) = cf_tag kTypeValue kTypeColumnFamilyValue cf @ lp k @ lp v"
| "encoded (OpPutParts cf k v) =
     cf_tag kTypeValue kTypeColumnFamilyValue cf @ lp (concat k) @ lp (concat v)"
| "encoded (OpDelete cf k) = cf_tag kTypeDeletion kTypeColumnFamilyDeletion cf @ lp k"
| "encoded (OpDeleteParts cf k) =
     cf_tag kTypeDeletion kTypeColumnFamilyDeletion cf @ lp (concat k)"
| "encoded (OpSingleDelete cf k) =
     cf_tag kTypeSingleDeletion kTypeColumnFamilySingleDeletion cf @ lp k"
| "encoded (OpSingleDeleteParts cf k) =
     cf_tag kTypeSingleDeletion kTypeColumnFamilySingleDeletion cf @ lp (concat k)"
| "encoded (OpDeleteRange cf k v) =
     cf_tag kTypeRangeDeletion kTypeColumnFamilyRangeDeletion cf @ lp k @ lp v"
| "encoded (OpDeleteRangeParts cf k v) =
     cf_tag kTypeRangeDeletion kTypeColumnFamilyRangeDeletion cf @ lp (concat k) @ lp (concat v)"
| "encoded (OpMerge cf k v) = cf_tag kTypeMerge kTypeColumnFamilyMerge cf @ lp k @ lp v"
| "encoded (OpMergeParts cf k v) =
     cf_tag kTypeMerge kTypeColumnFamilyMerge cf @ lp (concat k) @ lp (concat v)"
| "encoded (OpPutLogData blob) = tag kTypeLogData # lp blob"
| "encoded OpInsertNoop = [tag kTypeNoop]"
| "encoded (OpMarkEndPrepare xid) = tag kTypeEndPrepareXID # lp xid"
| "encoded (OpMarkCommit xid) = tag kTypeCommitXID # lp xid"
| "encoded (OpMarkRollback xid) = tag kTypeRollbackXID # lp xid"

fun flag_of :: "append_op \<Rightarrow> 32 word" where
  "flag_of (OpPut cf k v) = HAS_PUT"
| "flag_of (OpPutParts cf k v) = HAS_PUT"
| "flag_of (OpDelete cf k) = HAS_DELETE"
| "flag_of (OpDeleteParts cf k) = HAS_DELETE"
| "flag_of (OpSingleDelete cf k) = HAS_SINGLE_DELETE"
| "flag_of (OpSingleDeleteParts cf k) = HAS_SINGLE_DELETE"
| "flag_of (OpDeleteRange cf k v) = HAS_DELETE_RANGE"
| "flag_of (OpDeleteRangeParts cf k v) = HAS_DELETE_RANGE"
| "flag_of (OpMerge cf k v) = HAS_MERGE"
| "flag_of (OpMergeParts cf k v) = HAS_MERGE"
| "flag_of (OpPutLogData blob) = 0"
| "flag_of OpInsertNoop = 0"
| "flag_of (OpMarkEndPrepare xid) = HAS_END_PREPARE OR HAS_BEGIN_PREPARE"
| "flag_of (OpMarkCommit xid) = HAS_COMMIT"
| "flag_of (OpMarkRollback xid) = HAS_ROLLBACK"

definition counted_rep :: "WriteBatch \<Rightarrow> bytes \<Rightarrow> bytes" where
  "counted_rep b ext =
     take 8 (rep b) @ EncodeFixed32 (word_of_int (Count b + 1)) @ drop 12 (rep b) @ ext"

definition grown :: "WriteBatch \<Rightarrow> WriteBatch \<Rightarrow> bool" where
  "grown b b' \<longleftrightarrow>
     save_points b' = save_points b \<and> wal_term_point b' = wal_term_point b
     \<and> max_bytes b' = max_bytes b
     \<and> (b' = b \<or> (\<exists>w ext. length w = 4 \<and> ext \<noteq> []
            \<and> rep b' = take 8 (rep b) @ w @ drop 12 (rep b) @ ext))"

section \<open>Records, well-behaved handlers and a recording handler\<close>

text \<open>
  The records of a payload, decoded one after the other as the loop of \<open>Iterate\<close> decodes
  them, without a handler: \<open>None\<close> when some record does not parse. \<open>count_records\<close> is
  the number of records among them that the loop counts in \<open>found\<close>.
\<close>

function parse_records :: "bytes \<Rightarrow> parsed list option" where
  "parse_records [] = Some []"
| "parse_records (c # input) =
     (case ReadRecordFromWriteBatch c input of
        Inl s \<Rightarrow> None
      | Inr (r, input) \<Rightarrow>
          (case parse_records input of None \<Rightarrow> None | Some rs \<Rightarrow> Some (r # rs)))"
  by pat_completeness auto
termination
  by (relation "measure length") (auto dest!: ReadRecordFromWriteBatch_length)

fun is_counted :: "ValueType \<Rightarrow> bool" where
  "is_counted kTypeLogData = False"
| "is_counted kTypeBeginPrepareXID = False"
| "is_counted kTypeEndPrepareXID = False"
| "is_counted kTypeCommitXID = False"
| "is_counted kTypeRollbackXID = False"
| "is_counted kTypeNoop = False"
| "is_counted t = True"

definition count_records :: "parsed list \<Rightarrow> int" where
  "count_records rs = int (length (filter (\<lambda>r. is_counted (p_tag r)) rs))"

text \<open>
  The state a handler is in after \<open>Continue\<close> and the callback of each record in turn
  (\<open>None\<close> if a callback does not return).
\<close>

fun visit :: "'h Handler \<Rightarrow> parsed list \<Rightarrow> 'h \<Rightarrow> 'h option" where
  "visit H [] h = Some h"
| "visit H (r # rs) h =
     (case dispatch H r (snd (Continue H h)) of
        None \<Rightarrow> None
      | Some (s, n, h) \<Rightarrow> visit H rs h)"

text \<open>
  A handler whose mutation callbacks return OK and whose marker callbacks return, and a
  handler that never asks to stop.
\<close>

definition returns_ok :: "'h Handler \<Rightarrow> bool" where
  "returns_ok H \<longleftrightarrow>
     (\<forall>cf k v h. \<exists>h'. PutCF H cf k v h = Some (OK, h'))
     \<and> (\<forall>cf k h. \<exists>h'. DeleteCF H cf k h = Some (OK, h'))
     \<and> (\<forall>cf k h. \<exists>h'. SingleDeleteCF H cf k h = Some (OK, h'))
     \<and> (\<forall>cf k v h. \<exists>h'. DeleteRangeCF H cf k v h = Some (OK, h'))
     \<and> (\<forall>cf k v h. \<exists>h'. MergeCF H cf k v h = Some (OK, h'))
     \<and> (\<forall>h. MarkBeginPrepare H h \<noteq> None)
     \<and> (\<forall>xid h. MarkEndPrepare H xid h \<noteq> None)
     \<and> (\<forall>xid h. MarkCommit H xid h \<noteq> None)
     \<and> (\<forall>xid h. MarkRollback H xid h \<noteq> None)"

definition never_stops :: "'h Handler \<Rightarrow> bool" where
  "never_stops H \<longleftrightarrow> (\<forall>h. fst (Continue H h))"

text \<open>A handler that records the callbacks it receives, in order.\<close>

datatype callback =
    CallPut "32 word" bytes bytes
  | CallDelete "32 word" bytes
  | CallSingleDelete "32 word" bytes
  | CallDeleteRange "32 word" bytes bytes
  | CallMerge "32 word" bytes bytes
  | CallLogData bytes
  | CallMarkBeginPrepare
  | CallMarkEndPrepare bytes
  | CallMarkCommit bytes
  | CallMarkRollback bytes

definition Recorder :: "callback list Handler" where
  "Recorder =
     \<lparr>PutCF = (\<lambda>cf k v calls. Some (OK, calls @ [CallPut cf k v])),
      DeleteCF = (\<lambda>cf k calls. Some (OK, calls @ [CallDelete cf k])),
      SingleDeleteCF = (\<lambda>cf k calls. Some (OK, calls @ [CallSingleDelete cf k])),
      DeleteRangeCF = (\<lambda>cf k v calls. Some (OK, calls @ [CallDeleteRange cf k v])),
      MergeCF = (\<lambda>cf k v calls. Some (OK, calls @ [CallMerge cf k v])),
      LogData = (\<lambda>blob calls. calls @ [CallLogData blob]),
      MarkBeginPrepare = (\<lambda>calls. Some (OK, calls @ [CallMarkBeginPrepare])),
      MarkEndPrepare = (\<lambda>xid calls. Some (OK, calls @ [CallMarkEndPrepare xid])),
      MarkCommit = (\<lambda>xid calls. Some (OK, calls @ [CallMarkCommit xid])),
      MarkRollback = (\<lambda>xid calls. Some (OK, calls @ [CallMarkRollback xid])),
      Continue = (\<lambda>calls. (True, calls))\<rparr>"

section \<open>Queries, well-formed appends and the classifier's invariant\<close>

text \<open>The remaining queries of the source, each a bit of \<open>ComputeContentFlags\<close>.\<close>

definition HasSingleDelete :: "WriteBatch \<Rightarrow> (bool \<times> WriteBatch) option" where
  "HasSingleDelete b =
     (case ComputeContentFlags b of
        None \<Rightarrow> None
      | Some (rv, b) \<Rightarrow> Some (rv AND HAS_SINGLE_DELETE \<noteq> 0, b))"

definition HasDeleteRange :: "WriteBatch \<Rightarrow> (bool \<times> WriteBatch) option" where
  "HasDeleteRange b =
     (case ComputeContentFlags b of
        None \<Rightarrow> None
      | Some (rv, b) \<Rightarrow> Some (rv AND HAS_DELETE_RANGE \<noteq> 0, b))"

definition HasMerge :: "WriteBatch \<Rightarrow> (bool \<times> WriteBatch) option" where
  "HasMerge b =
     (case ComputeContentFlags b of
        None \<Rightarrow> None
      | Some (rv, b) \<Rightarrow> Some (rv AND HAS_MERGE \<noteq> 0, b))"

definition HasBeginPrepare :: "WriteBatch \<Rightarrow> (bool \<times> WriteBatch) option" where
  "HasBeginPrepare b =
     (case ComputeContentFlags b of
        None \<Rightarrow> None
      | Some (rv, b) \<Rightarrow> Some (rv AND HAS_BEGIN_PREPARE \<noteq> 0, b))"

definition HasEndPrepare :: "WriteBatch \<Rightarrow> (bool \<times> WriteBatch) option" where
  "HasEndPrepare b =
     (case ComputeContentFlags b of
        None \<Rightarrow> None
      | Some (rv, b) \<Rightarrow> Some (rv AND HAS_END_PREPARE \<noteq> 0, b))"

definition HasCommit :: "WriteBatch \<Rightarrow> (bool \<times> WriteBatch) option" where
  "HasCommit b =
     (case ComputeContentFlags b of
        None \<Rightarrow> None
      | Some (rv, b) \<Rightarrow> Some (rv AND HAS_COMMIT \<noteq> 0, b))"

definition HasRollback :: "WriteBatch \<Rightarrow> (bool \<times> WriteBatch) option" where
  "HasRollback b =
     (case ComputeContentFlags b of
        None \<Rightarrow> None
      | Some (rv, b) \<Rightarrow> Some (rv AND HAS_ROLLBACK \<noteq> 0, b))"

text \<open>
  An append whose strings are shorter than \<open>2 ^ 32\<close> bytes: the length prefix is a varint32,
  and a longer string does not survive encoding.
\<close>

fun fits :: "append_op \<Rightarrow> bool" where
  "fits (OpPut cf k v) \<longleftrightarrow> length k < 2 ^ 32 \<and> length v < 2 ^ 32"
| "fits (OpPutParts cf k v) \<longleftrightarrow> length (concat k) < 2 ^ 32 \<and> length (concat v) < 2 ^ 32"
| "fits (OpDelete cf k) \<longleftrightarrow> length k < 2 ^ 32"
| "fits (OpDeleteParts cf k) \<longleftrightarrow> length (concat k) < 2 ^ 32"
| "fits (OpSingleDelete cf k) \<longleftrightarrow> length k < 2 ^ 32"
| "fits (OpSingleDeleteParts cf k) \<longleftrightarrow> length (concat k) < 2 ^ 32"
| "fits (OpDeleteRange cf k v) \<longleftrightarrow> length k < 2 ^ 32 \<and> length v < 2 ^ 32"
| "fits (OpDeleteRangeParts cf k v) \<longleftrightarrow> length (concat k) < 2 ^ 32 \<and> length (concat v) < 2 ^ 32"
| "fits (OpMerge cf k v) \<longleftrightarrow> length k < 2 ^ 32 \<and> length v < 2 ^ 32"
| "fits (OpMergeParts cf k v) \<longleftrightarrow> length (concat k) < 2 ^ 32 \<and> length (concat v) < 2 ^ 32"
| "fits (OpPutLogData blob) \<longleftrightarrow> length blob < 2 ^ 32"
| "fits OpInsertNoop \<longleftrightarrow> True"
| "fits (OpMarkEndPrepare xid) \<longleftrightarrow> length xid < 2 ^ 32"
| "fits (OpMarkCommit xid) \<longleftrightarrow> length xid < 2 ^ 32"
| "fits (OpMarkRollback xid) \<longleftrightarrow> length xid < 2 ^ 32"

text \<open>The assertions of the appends of a sequence, each at the batch it is performed on.\<close>

fun assert_holds :: "WriteBatch \<Rightarrow> append_op \<Rightarrow> bool" where
  "assert_holds b (OpMarkEndPrepare xid) = MarkEndPrepare_pre b"
| "assert_holds b x = True"

fun asserts_hold :: "WriteBatch \<Rightarrow> append_op list \<Rightarrow> bool" where
  "asserts_hold b [] = True"
| "asserts_hold b (x # xs) = (assert_holds b x \<and> asserts_hold (snd (append b x)) xs)"

text \<open>The record that decoding the bytes of an append gives back.\<close>

definition mk_parsed :: "ValueType \<Rightarrow> 32 word \<Rightarrow> bytes \<Rightarrow> bytes \<Rightarrow> bytes \<Rightarrow> bytes \<Rightarrow> parsed" where
  "mk_parsed t cf k v blob xid =
     \<lparr>p_tag = t, p_column_family = cf, p_key = k, p_value = v, p_blob = blob, p_xid = xid\<rparr>"

fun parsed_of :: "append_op \<Rightarrow> parsed" where
  "parsed_of (OpPut cf k v) =
     mk_parsed (if cf = 0 then kTypeValue else kTypeColumnFamilyValue) cf k v [] []"
| "parsed_of (OpPutParts cf k v) =
     mk_parsed (if cf = 0 then kTypeValue else kTypeColumnFamilyValue) cf (concat k) (concat v) [] []"
| "parsed_of (OpDelete cf k) =
     mk_parsed (if cf = 0 then kTypeDeletion else kTypeColumnFamilyDeletion) cf k [] [] []"
| "parsed_of (OpDeleteParts cf k) =
     mk_parsed (if cf = 0 then kTypeDeletion else kTypeColumnFamilyDeletion) cf (concat k) [] [] []"
| "parsed_of (OpSingleDelete cf k) =
     mk_parsed (if cf = 0 then kTypeSingleDeletion else kTypeColumnFamilySingleDeletion) cf k [] [] []"
| "parsed_of (OpSingleDeleteParts cf k) =
     mk_parsed (if cf = 0 then kTypeSingleDeletion else kTypeColumnFamilySingleDeletion) cf
       (concat k) [] [] []"
| "parsed_of (OpDeleteRange cf k v) =
     mk_parsed (if cf = 0 then kTypeRangeDeletion else kTypeColumnFamilyRangeDeletion) cf k v [] []"
| "parsed_of (OpDeleteRangeParts cf k v) =
     mk_parsed (if cf = 0 then kTypeRangeDeletion else kTypeColumnFamilyRangeDeletion) cf
       (concat k) (concat v) [] []"
| "parsed_of (OpMerge cf k v) =
     mk_parsed (if cf = 0 then kTypeMerge else kTypeColumnFamilyMerge) cf k v [] []"
| "parsed_of (OpMergeParts cf k v) =
     mk_parsed (if cf = 0 then kTypeMerge else kTypeColumnFamilyMerge) cf (concat k) (concat v) [] []"
| "parsed_of (OpPutLogData blob) = mk_parsed kTypeLogData 0 [] [] blob []"
| "parsed_of OpInsertNoop = mk_parsed kTypeNoop 0 [] [] [] []"
| "parsed_of (OpMarkEndPrepare xid) = mk_parsed kTypeEndPrepareXID 0 [] [] [] xid"
| "parsed_of (OpMarkCommit xid) = mk_parsed kTypeCommitXID 0 [] [] [] xid"
| "parsed_of (OpMarkRollback xid) = mk_parsed kTypeRollbackXID 0 [] [] [] xid"

text \<open>The bit that \<open>BatchContentClassifier\<close> sets for a tag.\<close>

fun class_flag :: "ValueType \<Rightarrow> 32 word" where
  "class_flag kTypeColumnFamilyValue = HAS_PUT"
| "class_flag kTypeValue = HAS_PUT"
| "class_flag kTypeColumnFamilyDeletion = HAS_DELETE"
| "class_flag kTypeDeletion = HAS_DELETE"
| "class_flag kTypeColumnFamilySingleDeletion = HAS_SINGLE_DELETE"
| "class_flag kTypeSingleDeletion = HAS_SINGLE_DELETE"
| "class_flag kTypeColumnFamilyRangeDeletion = HAS_DELETE_RANGE"
| "class_flag kTypeRangeDeletion = HAS_DELETE_RANGE"
| "class_flag kTypeColumnFamilyMerge = HAS_MERGE"
| "class_flag kTypeMerge = HAS_MERGE"
| "class_flag kTypeLogData = 0"
| "class_flag kTypeBeginPrepareXID = HAS_BEGIN_PREPARE"
| "class_flag kTypeEndPrepareXID = HAS_END_PREPARE"
| "class_flag kTypeCommitXID = HAS_COMMIT"
| "class_flag kTypeRollbackXID = HAS_ROLLBACK"
| "class_flag kTypeNoop = 0"

fun exit_state :: "'h loop_exit \<Rightarrow> 'h" where
  "exit_state (Return s h) = h"
| "exit_state (Exhausted n h) = h"
| "exit_state (Stopped n h) = h"
| "exit_state (Failed s n h) = h"

text \<open>
  The invariant of a batch grown by appends: the classifier runs through the whole payload
  and adds exactly the batch's content flags to those it starts with.
\<close>

definition classified :: "WriteBatch \<Rightarrow> bool" where
  "classified b \<longleftrightarrow>
     12 \<le> length (rep b)
     \<and> (\<exists>k. \<forall>n f. Iterate_loop BatchContentClassifier (drop 12 (rep b)) n f
                      = Some (Exhausted (n + k) (f OR content_flags b)))"

section \<open>The memtable inserter\<close>

text \<open>
  Modelled from the spec: the enum \<open>UpdateStatus\<close> is declared in
  \<open>include/rocksdb/options.h\<close>, which is not among the sources. \<open>PutCF\<close> tells
  \<open>UPDATED_INPLACE\<close> and \<open>UPDATED\<close> from any other verdict of the in-place callback
  (section 4.5 of the specification: write back in place, add the merged result, or nothing).
\<close>

datatype UpdateStatus = UPDATE_FAILED | UPDATED_INPLACE | UPDATED

text \<open>
  The two statistics counters that \<open>PutCF\<close> ticks (\<open>include/rocksdb/statistics.h\<close>).
\<close>

datatype Tickers = NUMBER_KEYS_UPDATED | NUMBER_KEYS_WRITTEN

text \<open>
  The memtable of the selected column family, the column-family registry, the database, the
  flush scheduler, the statistics and the merge helper are outside \<open>write_batch.cc\<close>. They
  are parameters of the model, one function for each call that the inserter makes, over a
  state \<open>'w\<close> of everything outside the inserter; nothing is assumed of them. A call that
  returns a value and may change the state returns both. \<open>cf_Seek\<close> is
  \<open>cf_mems_->Seek\<close>, which also selects the memtable that the \<open>mem_\<close> functions speak
  of; \<open>db_Get\<close> is \<open>db_->Get\<close> at the snapshot of a sequence number, with the default
  column family taken when the registry has no handle.
\<close>

record 'w Collaborators =
  cf_Seek :: "32 word \<Rightarrow> 'w \<Rightarrow> bool \<times> 'w"
  cf_GetLogNumber :: "'w \<Rightarrow> 64 word"
  mem_RefLogContainingPrepSection :: "64 word \<Rightarrow> 'w \<Rightarrow> 'w"
  mem_inplace_update_support :: "'w \<Rightarrow> bool"
  mem_has_inplace_callback :: "'w \<Rightarrow> bool"
  mem_inplace_callback :: "bytes option \<Rightarrow> bytes \<Rightarrow> 'w \<Rightarrow> UpdateStatus \<times> bytes \<times> bytes"
  mem_max_successive_merges :: "'w \<Rightarrow> nat"
  mem_CountSuccessiveMergeEntries :: "bytes \<Rightarrow> 64 word \<Rightarrow> 'w \<Rightarrow> nat"
  mem_Add :: "64 word \<Rightarrow> ValueType \<Rightarrow> bytes \<Rightarrow> bytes \<Rightarrow> bool \<Rightarrow> 'w \<Rightarrow> 'w"
  mem_Update :: "64 word \<Rightarrow> bytes \<Rightarrow> bytes \<Rightarrow> 'w \<Rightarrow> 'w"
  mem_UpdateCallback :: "64 word \<Rightarrow> bytes \<Rightarrow> bytes \<Rightarrow> 'w \<Rightarrow> bool \<times> 'w"
  mem_ShouldScheduleFlush :: "'w \<Rightarrow> bool"
  mem_MarkFlushScheduled :: "'w \<Rightarrow> bool \<times> 'w"
  ScheduleFlush :: "'w \<Rightarrow> 'w"
  RecordTick :: "Tickers \<Rightarrow> 'w \<Rightarrow> 'w"
  TimedFullMerge :: "bytes \<Rightarrow> bytes \<Rightarrow> bytes \<Rightarrow> 'w \<Rightarrow> Status \<times> bytes"
  is_delete_range_supported :: "'w \<Rightarrow> bool"
  db_Get :: "64 word \<Rightarrow> bytes \<Rightarrow> 'w \<Rightarrow> Status \<times> bytes \<times> 'w"
  db_allow_2pc :: "'w \<Rightarrow> bool"

text \<open>
  The constructor arguments of \<open>MemTableInserter\<close> that never change; \<open>db_present\<close> is
  \<open>db_ != nullptr\<close> and \<open>flush_scheduler_present\<close> is \<open>flush_scheduler_ != nullptr\<close>.
\<close>

record Options =
  ignore_missing_column_families :: bool
  recovering_log_number :: "64 word"
  db_present :: bool
  concurrent_memtable_writes :: bool
  flush_scheduler_present :: bool

text \<open>
  The mutable members of the inserter: \<open>sequence_\<close>, \<open>log_number_ref_\<close>,
  \<open>post_info_created_\<close>, the flag behind the pointer \<open>has_valid_writes_\<close> (\<open>None\<close>
  for a null pointer) and \<open>rebuilding_trx_\<close> (\<open>None\<close> for a null pointer); with them
  the recovered-transactions table of the database and the state of the collaborators.
\<close>

record 'w MemTableInserter =
  sequence :: "64 word"
  log_number_ref :: "64 word"
  post_info_created :: bool
  has_valid_writes :: "bool option"
  rebuilding_trx :: "WriteBatch option"
  recovered_transactions :: "bytes \<Rightarrow> (64 word \<times> WriteBatch option) option"
  world :: 'w

text \<open>
  \<open>if (has_valid_writes_ != nullptr) *has_valid_writes_ = true\<close>.
\<close>

definition set_has_valid_writes :: "'w MemTableInserter \<Rightarrow> 'w MemTableInserter" where
  "set_has_valid_writes st =
     (case has_valid_writes st of
        None \<Rightarrow> st
      | Some v \<Rightarrow> st\<lparr>has_valid_writes := Some True\<rparr>)"

definition SeekToColumnFamily ::
  "'w Collaborators \<Rightarrow> Options \<Rightarrow> 32 word \<Rightarrow> 'w MemTableInserter
    \<Rightarrow> bool \<times> Status \<times> 'w MemTableInserter" where
  "SeekToColumnFamily E cfg column_family_id st =
     (let (found, w) = cf_Seek E column_family_id (world st);
          st = st\<lparr>world := w\<rparr>
      in if \<not> found then
           (if ignore_missing_column_families cfg then (False, OK, st)
            else (False, InvalidArgument ''Invalid column family specified in write batch'', st))
         else if recovering_log_number cfg \<noteq> 0
                 \<and> recovering_log_number cfg < cf_GetLogNumber E (world st)
         then (False, OK, st)
         else
           (let st = set_has_valid_writes st;
                st = (if 0 < log_number_ref st
                      then st\<lparr>world := mem_RefLogContainingPrepSection E (log_number_ref st) (world st)\<rparr>
                      else st)
            in (True, OK, st)))"

definition CheckMemtableFull :: "'w Collaborators \<Rightarrow> Options \<Rightarrow> 'w \<Rightarrow> 'w" where
  "CheckMemtableFull E cfg w =
     (if flush_scheduler_present cfg then
        (if mem_ShouldScheduleFlush E w then
           (let (marked, w) = mem_MarkFlushScheduled E w
            in if marked then ScheduleFlush E w else w)
         else w)
      else w)"

text \<open>
  The three branches of \<open>PutCF\<close> on the memtable options, after a successful seek.
\<close>

definition put_to_memtable ::
  "'w Collaborators \<Rightarrow> Options \<Rightarrow> 64 word \<Rightarrow> bytes \<Rightarrow> bytes \<Rightarrow> 'w \<Rightarrow> 'w" where
  "put_to_memtable E cfg seq key val w =
     (if \<not> mem_inplace_update_support E w then
        mem_Add E seq kTypeValue key val (concurrent_memtable_writes cfg) w
      else if \<not> mem_has_inplace_callback E w then
        RecordTick E NUMBER_KEYS_UPDATED (mem_Update E seq key val w)
      else
        (let (updated, w) = mem_UpdateCallback E seq key val w
         in if updated then w
            else
              (let (s, prev_value, w) =
                     (if db_present cfg \<and> recovering_log_number cfg = 0 then db_Get E seq key w
                      else (NotSupported [], [], w));
                   (status, prev_buffer, merged_value) =
                     mem_inplace_callback E (if ok s then Some prev_value else None) val w;
                   prev_buffer = (if ok s then prev_buffer else prev_value)
               in if status = UPDATED_INPLACE then
                    RecordTick E NUMBER_KEYS_WRITTEN (mem_Add E seq kTypeValue key prev_buffer False w)
                  else if status = UPDATED then
                    RecordTick E NUMBER_KEYS_WRITTEN (mem_Add E seq kTypeValue key merged_value False w)
                  else w)))"

text \<open>
  \<open>get_post_process_info\<close> creates the post-process map on its first use, in concurrent
  mode only; \<open>PutCF\<close> calls it in its first branch, \<open>DeleteImpl\<close> always.
\<close>

definition uses_post_process_info :: "'w Collaborators \<Rightarrow> Options \<Rightarrow> 'w \<Rightarrow> bool" where
  "uses_post_process_info E cfg w =
     (\<not> mem_inplace_update_support E w \<and> concurrent_memtable_writes cfg)"

definition MemTableInserter_PutCF ::
  "'w Collaborators \<Rightarrow> Options \<Rightarrow> 32 word \<Rightarrow> bytes \<Rightarrow> bytes \<Rightarrow> 'w MemTableInserter
    \<Rightarrow> (Status \<times> 'w MemTableInserter) option" where
  "MemTableInserter_PutCF E cfg column_family_id key val st =
     (case rebuilding_trx st of
        Some trx \<Rightarrow>
          Some (OK, st\<lparr>rebuilding_trx :=
                        Some (snd (WriteBatchInternal_Put trx column_family_id key val))\<rparr>)
      | None \<Rightarrow>
          (case SeekToColumnFamily E cfg column_family_id st of
             (False, seek_status, st) \<Rightarrow> Some (seek_status, st\<lparr>sequence := sequence st + 1\<rparr>)
           | (True, seek_status, st) \<Rightarrow>
               (let st = st\<lparr>post_info_created :=
                              post_info_created st \<or> uses_post_process_info E cfg (world st),
                            world := put_to_memtable E cfg (sequence st) key val (world st)\<rparr>;
                    st = st\<lparr>sequence := sequence st + 1\<rparr>;
                    st = st\<lparr>world := CheckMemtableFull E cfg (world st)\<rparr>
                in Some (OK, st))))"

definition DeleteImpl ::
  "'w Collaborators \<Rightarrow> Options \<Rightarrow> bytes \<Rightarrow> bytes \<Rightarrow> ValueType \<Rightarrow> 'w MemTableInserter
    \<Rightarrow> (Status \<times> 'w MemTableInserter) option" where
  "DeleteImpl E cfg key val delete_type st =
     (let st = st\<lparr>post_info_created := post_info_created st \<or> concurrent_memtable_writes cfg,
                  world := mem_Add E (sequence st) delete_type key val
                             (concurrent_memtable_writes cfg) (world st)\<rparr>;
          st = st\<lparr>sequence := sequence st + 1\<rparr>;
          st = st\<lparr>world := CheckMemtableFull E cfg (world st)\<rparr>
      in Some (OK, st))"

definition MemTableInserter_DeleteCF ::
  "'w Collaborators \<Rightarrow> Options \<Rightarrow> 32 word \<Rightarrow> bytes \<Rightarrow> 'w MemTableInserter
    \<Rightarrow> (Status \<times> 'w MemTableInserter) option" where
  "MemTableInserter_DeleteCF E cfg column_family_id key st =
     (case rebuilding_trx st of
        Some trx \<Rightarrow>
          Some (OK, st\<lparr>rebuilding_trx :=
                        Some (snd (WriteBatchInternal_Delete trx column_family_id key))\<rparr>)
      | None \<Rightarrow>
          (case SeekToColumnFamily E cfg column_family_id st of
             (False, seek_status, st) \<Rightarrow> Some (seek_status, st\<lparr>sequence := sequence st + 1\<rparr>)
           | (True, seek_status, st) \<Rightarrow> DeleteImpl E cfg key [] kTypeDeletion st))"

definition MemTableInserter_SingleDeleteCF ::
  "'w Collaborators \<Rightarrow> Options \<Rightarrow> 32 word \<Rightarrow> bytes \<Rightarrow> 'w MemTableInserter
    \<Rightarrow> (Status \<times> 'w MemTableInserter) option" where
  "MemTableInserter_SingleDeleteCF E cfg column_family_id key st =
     (case rebuilding_trx st of
        Some trx \<Rightarrow>
          Some (OK, st\<lparr>rebuilding_trx :=
                        Some (snd (WriteBatchInternal_SingleDelete trx column_family_id key))\<rparr>)
      | None \<Rightarrow>
          (case SeekToColumnFamily E cfg column_family_id st of
             (False, seek_status, st) \<Rightarrow> Some (seek_status, st\<lparr>sequence := sequence st + 1\<rparr>)
           | (True, seek_status, st) \<Rightarrow> DeleteImpl E cfg key [] kTypeSingleDeletion st))"

definition MemTableInserter_DeleteRangeCF ::
  "'w Collaborators \<Rightarrow> Options \<Rightarrow> 32 word \<Rightarrow> bytes \<Rightarrow> bytes \<Rightarrow> 'w MemTableInserter
    \<Rightarrow> (Status \<times> 'w MemTableInserter) option" where
  "MemTableInserter_DeleteRangeCF E cfg column_family_id begin_key end_key st =
     (case rebuilding_trx st of
        Some trx \<Rightarrow>
          Some (OK, st\<lparr>rebuilding_trx :=
             Some (snd (WriteBatchInternal_DeleteRange trx column_family_id begin_key end_key))\<rparr>)
      | None \<Rightarrow>
          (case SeekToColumnFamily E cfg column_family_id st of
             (False, seek_status, st) \<Rightarrow> Some (seek_status, st\<lparr>sequence := sequence st + 1\<rparr>)
           | (True, seek_status, st) \<Rightarrow>
               if db_present cfg \<and> \<not> is_delete_range_supported E (world st)
               then Some (NotSupported ''DeleteRange not supported for table type'', st)
               else DeleteImpl E cfg begin_key end_key kTypeRangeDeletion st))"

text \<open>
  The body of \<open>MergeCF\<close> between the seek and the increment of the sequence number.
\<close>

definition merge_to_memtable ::
  "'w Collaborators \<Rightarrow> Options \<Rightarrow> 64 word \<Rightarrow> bytes \<Rightarrow> bytes \<Rightarrow> 'w \<Rightarrow> 'w" where
  "merge_to_memtable E cfg seq key val w =
     (let perform_merge =
            (0 < mem_max_successive_merges E w \<and> db_present cfg \<and> recovering_log_number cfg = 0
             \<and> mem_max_successive_merges E w \<le> mem_CountSuccessiveMergeEntries E key seq w)
      in if perform_merge then
           (let (s, get_value, w) = db_Get E seq key w;
                (merge_status, new_value) = TimedFullMerge E key get_value val w
            in if \<not> ok merge_status then mem_Add E seq kTypeMerge key val False w
               else mem_Add E seq kTypeValue key new_value False w)
         else mem_Add E seq kTypeMerge key val False w)"

definition MemTableInserter_MergeCF ::
  "'w Collaborators \<Rightarrow> Options \<Rightarrow> 32 word \<Rightarrow> bytes \<Rightarrow> bytes \<Rightarrow> 'w MemTableInserter
    \<Rightarrow> (Status \<times> 'w MemTableInserter) option" where
  "MemTableInserter_MergeCF E cfg column_family_id key val st =
     (case rebuilding_trx st of
        Some trx \<Rightarrow>
          Some (OK, st\<lparr>rebuilding_trx :=
                        Some (snd (WriteBatchInternal_Merge trx column_family_id key val))\<rparr>)
      | None \<Rightarrow>
          (case SeekToColumnFamily E cfg column_family_id st of
             (False, seek_status, st) \<Rightarrow> Some (seek_status, st\<lparr>sequence := sequence st + 1\<rparr>)
           | (True, seek_status, st) \<Rightarrow>
               (let st = st\<lparr>world := merge_to_memtable E cfg (sequence st) key val (world st)\<rparr>;
                    st = st\<lparr>sequence := sequence st + 1\<rparr>;
                    st = st\<lparr>world := CheckMemtableFull E cfg (world st)\<rparr>
                in Some (OK, st))))"

definition MemTableInserter_MarkBeginPrepare ::
  "'w Collaborators \<Rightarrow> Options \<Rightarrow> 'w MemTableInserter \<Rightarrow> (Status \<times> 'w MemTableInserter) option" where
  "MemTableInserter_MarkBeginPrepare E cfg st =
     (if recovering_log_number cfg \<noteq> 0 then
        (if \<not> db_allow_2pc E (world st) then
           Some (NotSupported
             ''WAL contains prepared transactions. Open with TransactionDB::Open().'', st)
         else Some (OK, set_has_valid_writes (st\<lparr>rebuilding_trx := Some (WriteBatch_new 0)\<rparr>)))
      else Some (OK, st))"

text \<open>
  Modelled from the spec: \<open>DBImpl\<close> is not among the sources. Section 6 of the
  specification gives the recovered-transactions table of the database the interface
  \<open>insert_recovered_transaction(log_no, xid, batch)\<close>, \<open>get_recovered_transaction(xid)\<close>,
  \<open>delete_recovered_transaction(xid)\<close>, and section 4.5 has \<open>mark_commit\<close> look the
  transaction up by its name, read its log number and its batch, and remove it. The table is a
  map from names to the log number and the batch pointer (\<open>None\<close> for a null pointer) last
  inserted under the name.
\<close>

definition InsertRecoveredTransaction ::
  "64 word \<Rightarrow> bytes \<Rightarrow> WriteBatch option \<Rightarrow> 'w MemTableInserter \<Rightarrow> 'w MemTableInserter" where
  "InsertRecoveredTransaction log name batch st =
     st\<lparr>recovered_transactions := (recovered_transactions st)(name \<mapsto> (log, batch))\<rparr>"

definition GetRecoveredTransaction ::
  "bytes \<Rightarrow> 'w MemTableInserter \<Rightarrow> (64 word \<times> WriteBatch option) option" where
  "GetRecoveredTransaction name st = recovered_transactions st name"

definition DeleteRecoveredTransaction ::
  "bytes \<Rightarrow> 'w MemTableInserter \<Rightarrow> 'w MemTableInserter" where
  "DeleteRecoveredTransaction name st =
     st\<lparr>recovered_transactions := (recovered_transactions st)(name := None)\<rparr>"

definition MemTableInserter_MarkEndPrepare ::
  "Options \<Rightarrow> bytes \<Rightarrow> 'w MemTableInserter \<Rightarrow> (Status \<times> 'w MemTableInserter) option" where
  "MemTableInserter_MarkEndPrepare cfg name st =
     (if recovering_log_number cfg \<noteq> 0 then
        Some (OK, (InsertRecoveredTransaction (recovering_log_number cfg) name (rebuilding_trx st) st)
                    \<lparr>rebuilding_trx := None\<rparr>)
      else Some (OK, st))"

text \<open>
  \<open>MarkCommit\<close> iterates the batch of the recovered transaction through the inserter
  itself; the nested iteration is the parameter \<open>iterate\<close>. The callback has no result
  when the nested iteration has none, and when the batch pointer of the table entry is null,
  which the source dereferences. It returns the status of the nested iteration.
\<close>

definition MemTableInserter_MarkCommit ::
  "(WriteBatch \<Rightarrow> 'w MemTableInserter \<Rightarrow> (Status \<times> 'w MemTableInserter) option)
    \<Rightarrow> Options \<Rightarrow> bytes \<Rightarrow> 'w MemTableInserter \<Rightarrow> (Status \<times> 'w MemTableInserter) option" where
  "MemTableInserter_MarkCommit iterate cfg name st =
     (if recovering_log_number cfg \<noteq> 0 then
        (case GetRecoveredTransaction name st of
           None \<Rightarrow> Some (OK, st)
         | Some (log_number, None) \<Rightarrow> None
         | Some (log_number, Some batch) \<Rightarrow>
             (case iterate batch (st\<lparr>log_number_ref := log_number\<rparr>) of
                None \<Rightarrow> None
              | Some (s, st) \<Rightarrow>
                  (let st = st\<lparr>log_number_ref := 0\<rparr>;
                       st = (if ok s then DeleteRecoveredTransaction name st else st);
                       st = set_has_valid_writes st
                   in Some (s, st))))
      else Some (OK, st))"

definition MemTableInserter_MarkRollback ::
  "Options \<Rightarrow> bytes \<Rightarrow> 'w MemTableInserter \<Rightarrow> (Status \<times> 'w MemTableInserter) option" where
  "MemTableInserter_MarkRollback cfg name st =
     (if recovering_log_number cfg \<noteq> 0 then
        (case GetRecoveredTransaction name st of
           None \<Rightarrow> Some (OK, st)
         | Some trx \<Rightarrow> Some (OK, DeleteRecoveredTransaction name st))
      else Some (OK, st))"

text \<open>
  The inserter as a handler. It does not override \<open>LogData\<close> and \<open>Continue\<close>: the
  former does nothing, the latter returns true.
\<close>

definition MemTableInserter_Handler ::
  "'w Collaborators \<Rightarrow> Options
    \<Rightarrow> (WriteBatch \<Rightarrow> 'w MemTableInserter \<Rightarrow> (Status \<times> 'w MemTableInserter) option)
    \<Rightarrow> 'w MemTableInserter Handler" where
  "MemTableInserter_Handler E cfg iterate =
     \<lparr>PutCF = MemTableInserter_PutCF E cfg,
      DeleteCF = MemTableInserter_DeleteCF E cfg,
      SingleDeleteCF = MemTableInserter_SingleDeleteCF E cfg,
      DeleteRangeCF = MemTableInserter_DeleteRangeCF E cfg,
      MergeCF = MemTableInserter_MergeCF E cfg,
      LogData = (\<lambda>blob st. st),
      MarkBeginPrepare = MemTableInserter_MarkBeginPrepare E cfg,
      MarkEndPrepare = MemTableInserter_MarkEndPrepare cfg,
      MarkCommit = MemTableInserter_MarkCommit iterate cfg,
      MarkRollback = MemTableInserter_MarkRollback cfg,
      Continue = (\<lambda>st. (True, st))\<rparr>"

text \<open>
  The inserter whose \<open>MarkCommit\<close> may nest \<open>depth\<close> iterations. In the source the
  nested call is \<open>trx->batch_->Iterate(this)\<close>; below the given depth it has no result.
\<close>

primrec Inserter :: "'w Collaborators \<Rightarrow> Options \<Rightarrow> nat \<Rightarrow> 'w MemTableInserter Handler" where
  "Inserter E cfg 0 = MemTableInserter_Handler E cfg (\<lambda>batch st. None)"
| "Inserter E cfg (Suc depth) =
     MemTableInserter_Handler E cfg (\<lambda>batch st. Iterate (Inserter E cfg depth) batch st)"

text \<open>
  For concrete runs: one column family, number 0, whose memtable has the default options and
  records the calls of \<open>Add\<close> and \<open>Update\<close>; a database that allows two-phase commit
  and supports range deletions; no flush scheduler.
\<close>

datatype mem_call =
    MemAdd "64 word" ValueType bytes bytes
  | MemUpdate "64 word" bytes bytes

definition PlainMemtable :: "mem_call list Collaborators" where
  "PlainMemtable =
     \<lparr>cf_Seek = (\<lambda>cf w. (cf = 0, w)),
      cf_GetLogNumber = (\<lambda>w. 0),
      mem_RefLogContainingPrepSection = (\<lambda>log w. w),
      mem_inplace_update_support = (\<lambda>w. False),
      mem_has_inplace_callback = (\<lambda>w. False),
      mem_inplace_callback = (\<lambda>prev v w. (UPDATE_FAILED, [], [])),
      mem_max_successive_merges = (\<lambda>w. 0),
      mem_CountSuccessiveMergeEntries = (\<lambda>k seq w. 0),
      mem_Add = (\<lambda>seq t k v concurrent w. w @ [MemAdd seq t k v]),
      mem_Update = (\<lambda>seq k v w. w @ [MemUpdate seq k v]),
      mem_UpdateCallback = (\<lambda>seq k v w. (False, w)),
      mem_ShouldScheduleFlush = (\<lambda>w. False),
      mem_MarkFlushScheduled = (\<lambda>w. (False, w)),
      ScheduleFlush = (\<lambda>w. w),
      RecordTick = (\<lambda>t w. w),
      TimedFullMerge = (\<lambda>k existing operand w. (NotSupported [], [])),
      is_delete_range_supported = (\<lambda>w. True),
      db_Get = (\<lambda>seq k w. (NotFound, [], w)),
      db_allow_2pc = (\<lambda>w. True)\<rparr>"

text \<open>The parameters of an inserter that replays log 3 during recovery.\<close>

definition recovery :: Options where
  "recovery = \<lparr>ignore_missing_column_families = False, recovering_log_number = 3,
     db_present = True, concurrent_memtable_writes = False, flush_scheduler_present = False\<rparr>"

text \<open>
  A newly constructed inserter, with an empty recovered-transactions table.
\<close>

definition inserter_at :: "64 word \<Rightarrow> mem_call list MemTableInserter" where
  "inserter_at seq =
     \<lparr>sequence = seq, log_number_ref = 0, post_info_created = False, has_valid_writes = None,
      rebuilding_trx = None, recovered_transactions = Map.empty, world = []\<rparr>"

text \<open>
  What a counted callback leaves outside a prepared section: the sequence number one higher
  (for \<open>strict\<close>; otherwise unless the status is \<open>NotSupported\<close>), and no transaction
  under reconstruction, the table and the log reference as before.
\<close>

definition advanced :: "bool \<Rightarrow> 'w MemTableInserter \<Rightarrow> Status \<times> 'w MemTableInserter \<Rightarrow> bool" where
  "advanced strict st r \<longleftrightarrow>
     (strict \<or> (\<forall>m. fst r \<noteq> NotSupported m) \<longrightarrow> sequence (snd r) = sequence st + 1)
     \<and> rebuilding_trx (snd r) = None
     \<and> recovered_transactions (snd r) = recovered_transactions st
     \<and> log_number_ref (snd r) = log_number_ref st"

text \<open>The parameters of an inserter of an ordinary write, which ignores missing column families.\<close>

definition normal_write :: Options where
  "normal_write = \<lparr>ignore_missing_column_families = True, recovering_log_number = 0,
     db_present = True, concurrent_memtable_writes = False, flush_scheduler_present = False\<rparr>"

text \<open>
  A batch whose buffer holds the header and whose size is not limited, as
  \<open>new WriteBatch()\<close> and every batch grown from it.
\<close>

definition unbounded :: "WriteBatch \<Rightarrow> bool" where
  "unbounded b \<longleftrightarrow> 12 \<le> length (rep b) \<and> max_bytes b = 0"

text \<open>
  A payload that stays outside the two-phase commit of recovery: none of its records, as
  far as they parse, is a begin-prepare or an end-prepare marker, or the commit marker of a
  transaction that is \<open>known\<close>, that is, in the table of recovered transactions.
\<close>

function plain_payload :: "(bytes \<Rightarrow> bool) \<Rightarrow> bytes \<Rightarrow> bool" where
  "plain_payload known [] = True"
| "plain_payload known (c # input) =
     (case ReadRecordFromWriteBatch c input of
        Inl s \<Rightarrow> True
      | Inr (r, rest) \<Rightarrow>
          p_tag r \<noteq> kTypeBeginPrepareXID \<and> p_tag r \<noteq> kTypeEndPrepareXID
          \<and> \<not> (p_tag r = kTypeCommitXID \<and> known (p_xid r))
          \<and> plain_payload known rest)"
  by pat_completeness auto
termination
  by (relation "measure (\<lambda>(known, input). length input)")
    (auto dest!: ReadRecordFromWriteBatch_length)

text \<open>Collaborators whose column family does not support range deletions.\<close>

definition NoRangeDeletions :: "mem_call list Collaborators" where
  "NoRangeDeletions = PlainMemtable\<lparr>is_delete_range_supported := (\<lambda>w. False)\<rparr>"

subsection \<open>The replay of a batch according to the specification\<close>

text \<open>
  The counted appends as the records they are to the memtables: value type, column family,
  key and value, the strings of a parts append concatenated. An append that is not counted
  is no such record; the last equation only makes the function total.
\<close>

fun mutation :: "append_op \<Rightarrow> ValueType \<times> 32 word \<times> bytes \<times> bytes" where
  "mutation (OpPut cf k v) = (kTypeValue, cf, k, v)"
| "mutation (OpPutParts cf k v) = (kTypeValue, cf, concat k, concat v)"
| "mutation (OpDelete cf k) = (kTypeDeletion, cf, k, [])"
| "mutation (OpDeleteParts cf k) = (kTypeDeletion, cf, concat k, [])"
| "mutation (OpSingleDelete cf k) = (kTypeSingleDeletion, cf, k, [])"
| "mutation (OpSingleDeleteParts cf k) = (kTypeSingleDeletion, cf, concat k, [])"
| "mutation (OpDeleteRange cf k v) = (kTypeRangeDeletion, cf, k, v)"
| "mutation (OpDeleteRangeParts cf k v) = (kTypeRangeDeletion, cf, concat k, concat v)"
| "mutation (OpMerge cf k v) = (kTypeMerge, cf, k, v)"
| "mutation (OpMergeParts cf k v) = (kTypeMerge, cf, concat k, concat v)"
| "mutation x = (kTypeNoop, 0, [], [])"

text \<open>
  The replay of counted records as sections 4.5.1 to 4.5.6 of the specification describe it,
  to be compared with the callbacks of the source: a function of the sequence number and of
  the collaborators only. Section 4.5.1, the seek of the column family: an absent column
  family is filtered when \<open>ignore_missing_cf\<close> is set and an invalid argument otherwise;
  in recovery a column family whose log number exceeds \<open>recovering_log_number\<close> is
  filtered; otherwise the column family is selected, and a log reference above 0 is attached
  to its memtable.
\<close>

datatype seek_outcome = Selected | Filtered | Invalid

definition spec_seek_to_cf ::
  "'w Collaborators \<Rightarrow> Options \<Rightarrow> 64 word \<Rightarrow> 32 word \<Rightarrow> 'w \<Rightarrow> seek_outcome \<times> 'w" where
  "spec_seek_to_cf E cfg log_ref cfid w =
     (let (present, w) = cf_Seek E cfid w
      in if \<not> present then
           (if ignore_missing_column_families cfg then Filtered else Invalid, w)
         else if 0 < recovering_log_number cfg
                 \<and> recovering_log_number cfg < cf_GetLogNumber E w
         then (Filtered, w)
         else (Selected, if 0 < log_ref then mem_RefLogContainingPrepSection E log_ref w else w))"

text \<open>
  Sections 4.5.2 to 4.5.5, the entry that a selected memtable receives. A put is added, or
  with in-place update support written in place, with a counter tick (the in-place callback
  is left out, the specification being silent on the counter ticks of that path: the
  comparison below is for collaborators without one). A merge is folded into a
  value when the memtable permits it, the database is available, the inserter is not in
  recovery and the successive merge entries of the key have reached the threshold, and the
  merge operator succeeds; otherwise it is added as a merge. A deletion of any kind is added
  with its tag.
\<close>

definition spec_memtable_write ::
  "'w Collaborators \<Rightarrow> Options \<Rightarrow> 64 word \<Rightarrow> ValueType \<Rightarrow> bytes \<Rightarrow> bytes \<Rightarrow> 'w \<Rightarrow> 'w" where
  "spec_memtable_write E cfg seq t k v w =
     (if t = kTypeValue then
        (if mem_inplace_update_support E w
         then RecordTick E NUMBER_KEYS_UPDATED (mem_Update E seq k v w)
         else mem_Add E seq kTypeValue k v (concurrent_memtable_writes cfg) w)
      else if t = kTypeMerge then
        (if 0 < mem_max_successive_merges E w \<and> db_present cfg \<and> recovering_log_number cfg = 0
            \<and> mem_max_successive_merges E w \<le> mem_CountSuccessiveMergeEntries E k seq w
         then
           (let (s, current, w) = db_Get E seq k w;
                (merged, folded) = TimedFullMerge E k current v w
            in if merged = OK then mem_Add E seq kTypeValue k folded False w
               else mem_Add E seq kTypeMerge k v False w)
         else mem_Add E seq kTypeMerge k v False w)
      else mem_Add E seq t k v (concurrent_memtable_writes cfg) w)"

text \<open>
  Section 4.5.6: with a scheduler attached, a memtable that should be flushed and that this
  inserter is the one to mark is enqueued on the scheduler.
\<close>

definition spec_schedule_flush :: "'w Collaborators \<Rightarrow> Options \<Rightarrow> 'w \<Rightarrow> 'w" where
  "spec_schedule_flush E cfg w =
     (if flush_scheduler_present cfg \<and> mem_ShouldScheduleFlush E w then
        (let (won, w) = mem_MarkFlushScheduled E w in if won then ScheduleFlush E w else w)
      else w)"

text \<open>
  One record: a filtered record takes its sequence number and leaves the memtables alone; an
  invalid column family takes it too and fails; a range deletion on a column family without
  support for it fails before the sequence number is taken; every other record is written at
  the sequence number, which is then incremented, and the flush check follows. The result
  says whether the replay goes on.
\<close>

definition spec_apply ::
  "'w Collaborators \<Rightarrow> Options \<Rightarrow> 64 word \<Rightarrow> ValueType \<times> 32 word \<times> bytes \<times> bytes
    \<Rightarrow> 64 word \<Rightarrow> 'w \<Rightarrow> bool \<times> 64 word \<times> 'w" where
  "spec_apply E cfg log_ref m seq w =
     (case m of (t, cfid, k, v) \<Rightarrow>
        (case spec_seek_to_cf E cfg log_ref cfid w of
           (Invalid, w) \<Rightarrow> (False, seq + 1, w)
         | (Filtered, w) \<Rightarrow> (True, seq + 1, w)
         | (Selected, w) \<Rightarrow>
             if t = kTypeRangeDeletion \<and> \<not> is_delete_range_supported E w then (False, seq, w)
             else (True, seq + 1,
                   spec_schedule_flush E cfg (spec_memtable_write E cfg seq t k v w))))"

text \<open>The records in order, up to the first that fails.\<close>

fun spec_replay ::
  "'w Collaborators \<Rightarrow> Options \<Rightarrow> 64 word \<Rightarrow> append_op list \<Rightarrow> 64 word \<Rightarrow> 'w
    \<Rightarrow> bool \<times> 64 word \<times> 'w" where
  "spec_replay E cfg log_ref [] seq w = (True, seq, w)"
| "spec_replay E cfg log_ref (x # xs) seq w =
     (case spec_apply E cfg log_ref (mutation x) seq w of
        (True, seq, w) \<Rightarrow> spec_replay E cfg log_ref xs seq w
      | (False, seq, w) \<Rightarrow> (False, seq, w))"

text \<open>Collaborators whose memtables have no in-place callback.\<close>

definition no_inplace_callback :: "'w Collaborators \<Rightarrow> bool" where
  "no_inplace_callback E \<longleftrightarrow> (\<forall>w. mem_inplace_update_support E w \<longrightarrow> \<not> mem_has_inplace_callback E w)"

text \<open>
  A callback of the inserter that has done to the sequence number and the collaborators
  what the specification says of its record, and has left the transaction under
  reconstruction (none), the table of recovered transactions and the log reference alone.
\<close>

definition applied ::
  "'w Collaborators \<Rightarrow> Options \<Rightarrow> ValueType \<times> 32 word \<times> bytes \<times> bytes \<Rightarrow> 'w MemTableInserter
    \<Rightarrow> Status \<times> 'w MemTableInserter \<Rightarrow> bool" where
  "applied E cfg m st r \<longleftrightarrow>
     spec_apply E cfg (log_number_ref st) m (sequence st) (world st)
       = (fst r = OK, sequence (snd r), world (snd r))
     \<and> rebuilding_trx (snd r) = None
     \<and> recovered_transactions (snd r) = recovered_transactions st
     \<and> log_number_ref (snd r) = log_number_ref st"

section \<open>Properties of the codec\<close>

lemma DecodeFixed32_EncodeFixed32: "DecodeFixed32 (EncodeFixed32 v @ r) = v"
  unfolding DecodeFixed32_def EncodeFixed32_def
  apply (rule bit_word_eqI)
  subgoal for n
    apply (cases "n < 8"; cases "n < 16"; cases "n < 24")
           apply (auto simp: bit_simps)
    done
  done

lemma EncodeFixed32_DecodeFixed32_bytes:
  "EncodeFixed32 (DecodeFixed32 (b0 # b1 # b2 # b3 # r)) = [b0, b1, b2, b3]"
  unfolding DecodeFixed32_def EncodeFixed32_def
  apply simp
  apply (intro conjI; rule bit_word_eqI)
     apply (auto simp: bit_simps dest: bit_imp_le_length)
  done

lemma EncodeFixed32_DecodeFixed32:
  assumes "4 \<le> length p"
  shows "EncodeFixed32 (DecodeFixed32 p) = take 4 p"
proof -
  from assms obtain b0 b1 b2 b3 r where p: "p = b0 # b1 # b2 # b3 # r"
    by (cases p; simp; metis Suc_le_length_iff numeral_3_eq_3 Suc_le_mono list.size(4) One_nat_def)
  show ?thesis
    unfolding p by (simp add: EncodeFixed32_DecodeFixed32_bytes)
qed

lemma length_EncodeFixed32 [simp]: "length (EncodeFixed32 v) = 4"
  by (simp add: EncodeFixed32_def)

section \<open>Appends and save points\<close>

lemma PutLengthPrefixedSlice_lp: "PutLengthPrefixedSlice r s = r @ lp s"
  by (simp add: PutLengthPrefixedSlice_def PutVarint32_def lp_def)

lemma PutLengthPrefixedSliceParts_lp: "PutLengthPrefixedSliceParts r ps = r @ lp (concat ps)"
  by (simp add: PutLengthPrefixedSliceParts_def PutVarint32_def lp_def length_concat)

lemma put_tag_cf:
  "(if cf = 0 then push_back r (tag t) else PutVarint32 (push_back r (tag tcf)) cf)
     = r @ cf_tag t tcf cf"
  by (simp add: push_back_def PutVarint32_def cf_tag_def)

lemma encoded_not_Nil [simp]: "encoded x \<noteq> []"
  by (cases x) (simp_all add: cf_tag_def)

lemma SetCount_rep_restore:
  assumes "12 \<le> length r"
  shows "take 8 r @ EncodeFixed32 (word_of_int (sint (DecodeFixed32 (drop 8 r)))) @ drop 12 r = r"
proof -
  have enc: "EncodeFixed32 (DecodeFixed32 (drop 8 r)) = take 4 (drop 8 r)"
    using assms by (intro EncodeFixed32_DecodeFixed32) simp
  have e: "take 12 r = take 8 r @ take 4 (drop 8 r)"
    using take_add [of 8 4 r] by simp
  have "take 12 r @ drop 12 r = r"
    by simp
  then show ?thesis
    unfolding e by (simp add: enc)
qed

lemma commit_after_SetCount:
  assumes "12 \<le> length (rep b)"
  shows "commit (LocalSavePoint b)
           (b\<lparr>rep := take 8 (rep b) @ EncodeFixed32 w @ drop 12 (rep b) @ ext, content_flags := f\<rparr>) =
         (if max_bytes b \<noteq> 0 \<and> max_bytes b < length (rep b) + length ext then (BatchTooLarge, b)
          else (OK, b\<lparr>rep := take 8 (rep b) @ EncodeFixed32 w @ drop 12 (rep b) @ ext,
                     content_flags := f\<rparr>))"
proof -
  have "take 8 (rep b) @ EncodeFixed32 (word_of_int (Count b)) @ drop 12 (rep b) = rep b"
    unfolding Count_def by (rule SetCount_rep_restore [OF assms])
  with assms show ?thesis
    by (simp add: commit_def LocalSavePoint_def GetDataSize_def SetCount_def resize_def)
qed

lemma commit_plain:
  assumes "12 \<le> length (rep b)"
  shows "commit (LocalSavePoint b) (b\<lparr>rep := rep b @ ext\<rparr>) =
         (if max_bytes b \<noteq> 0 \<and> max_bytes b < length (rep b) + length ext then (BatchTooLarge, b)
          else (OK, b\<lparr>rep := rep b @ ext\<rparr>))"
proof -
  have "take 8 (rep b) @ EncodeFixed32 (word_of_int (Count b)) @ drop 12 (rep b) = rep b"
    unfolding Count_def by (rule SetCount_rep_restore [OF assms])
  with assms show ?thesis
    by (simp add: commit_def LocalSavePoint_def GetDataSize_def SetCount_def resize_def)
qed

lemma append_counted_shape:
  "counted x \<Longrightarrow>
   append b x = commit (LocalSavePoint b)
     (b\<lparr>rep := counted_rep b (encoded x), content_flags := content_flags b OR flag_of x\<rparr>)"
  by (cases x)
    (simp_all add: WriteBatchInternal_Put_def WriteBatchInternal_Put_parts_def
      WriteBatchInternal_Delete_def WriteBatchInternal_Delete_parts_def
      WriteBatchInternal_SingleDelete_def WriteBatchInternal_SingleDelete_parts_def
      WriteBatchInternal_DeleteRange_def WriteBatchInternal_DeleteRange_parts_def
      WriteBatchInternal_Merge_def WriteBatchInternal_Merge_parts_def
      Let_def put_tag_cf PutLengthPrefixedSlice_lp PutLengthPrefixedSliceParts_lp SetCount_def
      counted_rep_def)

lemma append_counted:
  assumes "12 \<le> length (rep b)" and "counted x"
  shows "append b x =
     (if max_bytes b \<noteq> 0 \<and> max_bytes b < length (rep b) + length (encoded x)
      then (BatchTooLarge, b)
      else (OK, b\<lparr>rep := counted_rep b (encoded x),
                 content_flags := content_flags b OR flag_of x\<rparr>))"
  unfolding append_counted_shape [OF assms(2)] counted_rep_def
  by (rule commit_after_SetCount [OF assms(1)])

lemma append_PutLogData:
  assumes "12 \<le> length (rep b)"
  shows "append b (OpPutLogData blob) =
     (if max_bytes b \<noteq> 0 \<and> max_bytes b < length (rep b) + length (encoded (OpPutLogData blob))
      then (BatchTooLarge, b)
      else (OK, b\<lparr>rep := rep b @ encoded (OpPutLogData blob)\<rparr>))"
  using commit_plain [OF assms, of "encoded (OpPutLogData blob)"]
  by (simp add: WriteBatch_PutLogData_def Let_def push_back_def PutLengthPrefixedSlice_lp)

lemma append_markers:
  "append b OpInsertNoop = (OK, b\<lparr>rep := rep b @ encoded OpInsertNoop\<rparr>)"
  "append b (OpMarkCommit xid) =
     (OK, b\<lparr>rep := rep b @ encoded (OpMarkCommit xid), content_flags := content_flags b OR HAS_COMMIT\<rparr>)"
  "append b (OpMarkRollback xid) =
     (OK, b\<lparr>rep := rep b @ encoded (OpMarkRollback xid),
           content_flags := content_flags b OR HAS_ROLLBACK\<rparr>)"
  by (simp_all add: WriteBatchInternal_InsertNoop_def WriteBatchInternal_MarkCommit_def
      WriteBatchInternal_MarkRollback_def Let_def push_back_def PutLengthPrefixedSlice_lp)

lemma GetVarint_EncodeVarint:
  "n < 128 ^ Suc k \<Longrightarrow>
     GetVarint (Suc k) shift acc (EncodeVarint n @ rest) = Some (acc + n * 2 ^ shift, rest)"
proof (induction k arbitrary: n shift acc)
  case 0
  then have "unat (of_nat n :: 8 word) = n"
    by (simp add: unat_of_nat)
  with 0 show ?case
    by (simp add: EncodeVarint.simps [of n])
next
  case (Suc k)
  show ?case
  proof (cases "n < 128")
    case True
    then have "unat (of_nat n :: 8 word) = n"
      by (simp add: unat_of_nat)
    with True show ?thesis
      by (simp add: EncodeVarint.simps [of n])
  next
    case False
    have u: "unat (of_nat (128 + n mod 128) :: 8 word) = 128 + n mod 128"
      using unat_of_nat [where 'a = 8, of "128 + n mod 128"] by simp
    from Suc.prems have "n div 128 < 128 ^ Suc k"
      by (simp add: less_mult_imp_div_less mult.commute)
    from Suc.IH [OF this]
    have "GetVarint (Suc k) (shift + 7) (acc + (n mod 128) * 2 ^ shift) (EncodeVarint (n div 128) @ rest)
            = Some (acc + (n mod 128) * 2 ^ shift + (n div 128) * 2 ^ (shift + 7), rest)" .
    moreover have "(n mod 128) * 2 ^ shift + (n div 128) * 2 ^ (shift + 7) = n * 2 ^ shift"
    proof -
      have "n * 2 ^ shift = (n mod 128 + 128 * (n div 128)) * 2 ^ shift"
        by simp
      also have "\<dots> = (n mod 128) * 2 ^ shift + (n div 128) * 2 ^ (shift + 7)"
        by (simp only: distrib_right power_add) simp
      finally show ?thesis by simp
    qed
    ultimately show ?thesis
      using False u by (simp add: EncodeVarint.simps [of n] add.assoc)
  qed
qed

lemma GetVarint32_EncodeVarint:
  "GetVarint32 (EncodeVarint (unat v) @ rest) = Some (v, rest)"
proof -
  have "unat v < 2 ^ 32"
    using unsigned_less [of v] by simp
  then have "unat v < 128 ^ Suc 4"
    by simp
  from GetVarint_EncodeVarint [OF this, of 0 0 rest] show ?thesis
    by (simp add: GetVarint32_def eval_nat_numeral)
qed

lemma GetLengthPrefixedSlice_lp:
  assumes "length s < 2 ^ 32"
  shows "GetLengthPrefixedSlice (lp s @ rest) = Some (s, rest)"
proof -
  from assms have u: "unat (of_nat (length s) :: 32 word) = length s"
    by (simp add: unat_of_nat)
  show ?thesis
    using GetVarint32_EncodeVarint [of "of_nat (length s)" "s @ rest"]
    by (simp add: GetLengthPrefixedSlice_def lp_def u)
qed

text \<open>
  Claim C2. A counted append (put, delete, single delete, range delete, merge, in both the
  slice and the slice-parts variant) that fails because the payload would exceed
  \<open>max_bytes\<close> returns the batch it was given: payload, header count and content flags are
  those before the call.
\<close>

theorem failed_append_restores_batch:
  assumes "kHeader \<le> length (rep b)"
    and "counted x"
    and "fst (append b x) = BatchTooLarge"
  shows "snd (append b x) = b"
  using assms by (simp add: kHeader_def append_counted split: if_splits)

theorem failed_append_restores_batch_witness:
  "kHeader \<le> length (rep (WriteBatch_new 13)) \<and> counted (OpPut 0 [0x61] [0x31])
    \<and> fst (append (WriteBatch_new 13) (OpPut 0 [0x61] [0x31])) = BatchTooLarge
    \<and> snd (append (WriteBatch_new 13) (OpPut 0 [0x61] [0x31])) = WriteBatch_new 13"
proof -
  have h: "kHeader \<le> length (rep (WriteBatch_new 13))"
    by (simp add: kHeader_def WriteBatch_new_def resize_def)
  have f: "fst (append (WriteBatch_new 13) (OpPut 0 [0x61] [0x31])) = BatchTooLarge"
    by code_simp
  from failed_append_restores_batch [OF h _ f] h f show ?thesis
    by simp
qed

text \<open>
  Claim C9. \<open>PutLogData\<close> runs under the same scoped save point: if \<open>max_bytes\<close> is set and
  the buffer with the log-data record appended is longer than it, the call fails and the
  batch is unchanged.
\<close>

theorem PutLogData_too_large_unchanged:
  assumes "kHeader \<le> length (rep b)"
    and "max_bytes b \<noteq> 0"
    and "max_bytes b <
           length (PutLengthPrefixedSlice (push_back (rep b) (tag kTypeLogData)) blob)"
  shows "WriteBatch_PutLogData b blob = (BatchTooLarge, b)"
  using assms append_PutLogData [of b blob]
  by (simp add: kHeader_def push_back_def PutLengthPrefixedSlice_lp)

theorem PutLogData_too_large_unchanged_witness:
  "kHeader \<le> length (rep (WriteBatch_new 13)) \<and> max_bytes (WriteBatch_new 13) \<noteq> 0
    \<and> max_bytes (WriteBatch_new 13) <
         length (PutLengthPrefixedSlice (push_back (rep (WriteBatch_new 13)) (tag kTypeLogData))
           [0x61, 0x62])
    \<and> WriteBatch_PutLogData (WriteBatch_new 13) [0x61, 0x62] = (BatchTooLarge, WriteBatch_new 13)"
proof -
  have h: "kHeader \<le> length (rep (WriteBatch_new 13))"
    by (simp add: kHeader_def WriteBatch_new_def resize_def)
  have m: "max_bytes (WriteBatch_new 13) \<noteq> 0"
    by (simp add: WriteBatch_new_def)
  have l: "max_bytes (WriteBatch_new 13) <
         length (PutLengthPrefixedSlice (push_back (rep (WriteBatch_new 13)) (tag kTypeLogData))
           [0x61, 0x62])"
    by (simp add: WriteBatch_new_def resize_def kHeader_def push_back_def
        PutLengthPrefixedSlice_def PutVarint32_def)
  from PutLogData_too_large_unchanged [OF h m l] h m l show ?thesis
    by simp
qed

lemma DecodeFixed32_cong:
  "p ! 0 = q ! 0 \<Longrightarrow> p ! 1 = q ! 1 \<Longrightarrow> p ! 2 = q ! 2 \<Longrightarrow> p ! 3 = q ! 3 \<Longrightarrow>
   DecodeFixed32 p = DecodeFixed32 q"
  by (simp add: DecodeFixed32_def)

text \<open>
  Claim C8. On a batch whose byte at offset 12 is the no-op tag, \<open>MarkEndPrepare\<close> rewrites
  that byte to the begin-prepare tag and leaves the rest of the old buffer alone, appends
  the end-prepare tag and the length-prefixed xid, empties the save-point stack and does not
  change the header count.
\<close>

theorem MarkEndPrepare_seals_batch:
  assumes "MarkEndPrepare_pre b"
  shows "\<exists>b'. WriteBatchInternal_MarkEndPrepare b xid = (OK, b')
     \<and> take (length (rep b)) (rep b') = (rep b)[12 := tag kTypeBeginPrepareXID]
     \<and> rep b' ! 12 = tag kTypeBeginPrepareXID
     \<and> rep b' ! length (rep b) = tag kTypeEndPrepareXID
     \<and> (length xid < 2 ^ 32 \<longrightarrow>
          GetLengthPrefixedSlice (drop (Suc (length (rep b))) (rep b')) = Some (xid, []))
     \<and> save_points b' = (case save_points b of None \<Rightarrow> None | Some st \<Rightarrow> Some [])
     \<and> Count b' = Count b"
proof -
  let ?r = "(rep b)[12 := tag kTypeBeginPrepareXID]"
  let ?b = "b\<lparr>save_points := (case save_points b of None \<Rightarrow> None | Some st \<Rightarrow> Some []),
               rep := ?r @ tag kTypeEndPrepareXID # lp xid,
               content_flags := content_flags b OR HAS_END_PREPARE OR HAS_BEGIN_PREPARE\<rparr>"
  from assms have len: "12 < length (rep b)"
    by (simp add: MarkEndPrepare_pre_def)
  have eq: "WriteBatchInternal_MarkEndPrepare b xid = (OK, ?b)"
    by (simp add: WriteBatchInternal_MarkEndPrepare_def Let_def push_back_def
        PutLengthPrefixedSlice_lp)
  have cnt: "Count ?b = Count b"
    unfolding Count_def using len
    by (intro arg_cong [where f = sint] DecodeFixed32_cong) (auto simp: nth_append)
  have dec: "length xid < 2 ^ 32 \<Longrightarrow>
      GetLengthPrefixedSlice (drop (Suc (length (rep b))) (rep ?b)) = Some (xid, [])"
    using GetLengthPrefixedSlice_lp [of xid "[]"] by simp
  from len have "rep ?b ! 12 = tag kTypeBeginPrepareXID"
    by (simp add: nth_append)
  moreover have "rep ?b ! length (rep b) = tag kTypeEndPrepareXID"
    by (simp add: nth_append)
  ultimately show ?thesis
    using eq cnt dec by simp
qed

theorem MarkEndPrepare_seals_batch_witness:
  "MarkEndPrepare_pre (run_appends (WriteBatch_new 0) [OpInsertNoop, OpPut 0 [0x6B] [0x76]])
   \<and> length [0x74, 0x78, 0x31 :: 8 word] < 2 ^ 32
   \<and> (\<exists>b'. WriteBatchInternal_MarkEndPrepare
          (run_appends (WriteBatch_new 0) [OpInsertNoop, OpPut 0 [0x6B] [0x76]])
          [0x74, 0x78, 0x31] = (OK, b')
        \<and> rep b' ! 12 = tag kTypeBeginPrepareXID
        \<and> GetLengthPrefixedSlice (drop 19 (rep b')) = Some ([0x74, 0x78, 0x31], [])
        \<and> Count b' = 1)"
proof -
  let ?b = "run_appends (WriteBatch_new 0) [OpInsertNoop, OpPut 0 [0x6B] [0x76]]"
  have pre: "MarkEndPrepare_pre ?b"
    by code_simp
  have len: "length (rep ?b) = 18"
    by code_simp
  have cnt: "Count ?b = 1"
    by code_simp
  from MarkEndPrepare_seals_batch [OF pre, of "[0x74, 0x78, 0x31]"] pre len cnt
  show ?thesis
    by auto
qed

lemma take8_take4_drop12:
  "take 8 r @ take 4 (drop 8 r) @ drop 12 r = r"
proof -
  have e: "take 12 r = take 8 r @ take 4 (drop 8 r)"
    using take_add [of 8 4 r] by simp
  have "take 12 r @ drop 12 r = r"
    by simp
  then show ?thesis
    unfolding e by simp
qed

lemma append_no_clear_cases:
  assumes "12 \<le> length (rep b)" and "\<not> clears_save_points x"
  shows "append b x = (BatchTooLarge, b)
     \<or> (\<exists>w. length w = 4
          \<and> append b x = (OK, b\<lparr>rep := take 8 (rep b) @ w @ drop 12 (rep b) @ encoded x,
                                 content_flags := content_flags b OR flag_of x\<rparr>))"
proof (cases "counted x")
  case True
  show ?thesis
    unfolding append_counted [OF assms(1) True] counted_rep_def
    by (metis length_EncodeFixed32)
next
  case False
  have r: "rep b @ e = take 8 (rep b) @ take 4 (drop 8 (rep b)) @ drop 12 (rep b) @ e" for e
    using take8_take4_drop12 [of "rep b"] by (metis append.assoc)
  have l: "length (take 4 (drop 8 (rep b))) = 4"
    using assms(1) by simp
  from False assms(2) consider blob where "x = OpPutLogData blob" | "x = OpInsertNoop"
    | xid where "x = OpMarkCommit xid" | xid where "x = OpMarkRollback xid"
    by (cases x) simp_all
  then show ?thesis
  proof cases
    case 1
    show ?thesis
      unfolding 1 append_PutLogData [OF assms(1)] using l r [of "encoded (OpPutLogData blob)"]
      by (metis (no_types, lifting) flag_of.simps(11) or.right_neutral WriteBatch.surjective
          WriteBatch.update_convs(3) WriteBatch.update_convs(5))
  next
    case 2
    show ?thesis
      unfolding 2 append_markers using l r [of "encoded OpInsertNoop"]
      by (metis (no_types, lifting) flag_of.simps(12) or.right_neutral WriteBatch.surjective
          WriteBatch.update_convs(3) WriteBatch.update_convs(5))
  next
    case 3
    show ?thesis
      unfolding 3 append_markers using l r [of "encoded (OpMarkCommit xid)"]
      by (metis flag_of.simps(14))
  next
    case 4
    show ?thesis
      unfolding 4 append_markers using l r [of "encoded (OpMarkRollback xid)"]
      by (metis flag_of.simps(15))
  qed
qed

lemma grown_append:
  assumes "12 \<le> length (rep b)" and "grown b b'" and "\<not> clears_save_points x"
  shows "grown b (snd (append b' x))"
proof -
  from assms(2) have fields: "save_points b' = save_points b"
    "wal_term_point b' = wal_term_point b" "max_bytes b' = max_bytes b"
    by (simp_all add: grown_def)
  from assms(2) have shape: "\<exists>w ext. length w = 4 \<and> rep b' = take 8 (rep b) @ w @ drop 12 (rep b) @ ext"
  proof -
    from assms(2) consider "b' = b"
      | w ext where "length w = 4" "rep b' = take 8 (rep b) @ w @ drop 12 (rep b) @ ext"
      by (auto simp: grown_def)
    then show ?thesis
    proof cases
      case 1
      have "length (take 4 (drop 8 (rep b))) = 4"
        using assms(1) by simp
      moreover have "rep b = take 8 (rep b) @ take 4 (drop 8 (rep b)) @ drop 12 (rep b) @ []"
        using take8_take4_drop12 [of "rep b"] by simp
      ultimately show ?thesis
        unfolding 1 by blast
    next
      case 2
      then show ?thesis by blast
    qed
  qed
  then obtain w ext where w: "length w = 4"
    and rep': "rep b' = take 8 (rep b) @ w @ drop 12 (rep b) @ ext"
    by blast
  from rep' w assms(1) have len': "12 \<le> length (rep b')"
    by simp
  from rep' w assms(1) have t8: "take 8 (rep b') = take 8 (rep b)"
    by simp
  from rep' w assms(1) have d12: "drop 12 (rep b') = drop 12 (rep b) @ ext"
    by simp
  from append_no_clear_cases [OF len' assms(3)] show ?thesis
  proof (elim disjE exE conjE)
    assume "append b' x = (BatchTooLarge, b')"
    with assms(2) show ?thesis by simp
  next
    fix w'
    assume w': "length w' = 4"
      and a: "append b' x = (OK, b'\<lparr>rep := take 8 (rep b') @ w' @ drop 12 (rep b') @ encoded x,
                                      content_flags := content_flags b' OR flag_of x\<rparr>)"
    have "rep (snd (append b' x)) = take 8 (rep b) @ w' @ drop 12 (rep b) @ (ext @ encoded x)"
      unfolding a by (simp add: t8 d12)
    moreover have "ext @ encoded x \<noteq> []"
      by simp
    ultimately have "\<exists>w ext. length w = 4 \<and> ext \<noteq> []
        \<and> rep (snd (append b' x)) = take 8 (rep b) @ w @ drop 12 (rep b) @ ext"
      using w' by blast
    then show ?thesis
      unfolding grown_def using fields by (simp add: a)
  qed
qed

lemma grown_run_appends:
  assumes "12 \<le> length (rep b)"
  shows "grown b b' \<Longrightarrow> \<forall>x \<in> set X. \<not> clears_save_points x \<Longrightarrow> grown b (run_appends b' X)"
proof (induction X arbitrary: b')
  case Nil
  then show ?case by simp
next
  case (Cons x X)
  from Cons.prems have "grown b (snd (append b' x))"
    by (intro grown_append [OF assms]) simp_all
  with Cons show ?case
    by simp
qed

lemma Rollback_grown:
  assumes "12 \<le> length (rep b)"
    and "grown (WriteBatch_SetSavePoint b) b'"
  shows "WriteBatch_RollbackToSavePoint b' =
     (OK, b\<lparr>save_points := Some (case save_points b of None \<Rightarrow> [] | Some st \<Rightarrow> st)\<rparr>)"
proof -
  let ?st = "case save_points b of None \<Rightarrow> [] | Some st \<Rightarrow> st"
  let ?sp = "\<lparr>sp_size = length (rep b), sp_count = Count b, sp_content_flags = content_flags b\<rparr>"
  have b1: "WriteBatch_SetSavePoint b = b\<lparr>save_points := Some (?sp # ?st)\<rparr>"
    by (simp add: WriteBatch_SetSavePoint_def GetDataSize_def Let_def)
  from assms(2) have sp: "save_points b' = Some (?sp # ?st)"
    and wal: "wal_term_point b' = wal_term_point b" and mb: "max_bytes b' = max_bytes b"
    by (simp_all add: grown_def b1)
  from assms(2) consider "b' = b\<lparr>save_points := Some (?sp # ?st)\<rparr>"
    | w ext where "length w = 4" "ext \<noteq> []" "rep b' = take 8 (rep b) @ w @ drop 12 (rep b) @ ext"
    by (auto simp: grown_def b1)
  then show ?thesis
  proof cases
    case 1
    show ?thesis
      unfolding 1 by (simp add: WriteBatch_RollbackToSavePoint_def Let_def)
  next
    case 2
    have restore: "take 8 (rep b) @ EncodeFixed32 (word_of_int (Count b)) @ drop 12 (rep b) = rep b"
      unfolding Count_def by (rule SetCount_rep_restore [OF assms(1)])
    have neq: "length (rep b) \<noteq> length (rep b')"
      using 2 assms(1) by simp
    have rs: "resize (rep b') (length (rep b)) = take 8 (rep b) @ w @ drop 12 (rep b)"
      using 2 assms(1) by (simp add: resize_def)
    have "WriteBatch_RollbackToSavePoint b' =
        (OK, b'\<lparr>save_points := Some ?st, rep := rep b, content_flags := content_flags b\<rparr>)"
    proof -
      from assms(1) have ne: "rep b \<noteq> []"
        by auto
      with neq 2(1) assms(1) restore show ?thesis
        by (simp add: WriteBatch_RollbackToSavePoint_def sp Let_def SetCount_def rs)
    qed
    moreover have "b'\<lparr>save_points := Some ?st, rep := rep b, content_flags := content_flags b\<rparr>
        = b\<lparr>save_points := Some ?st\<rparr>"
      using wal mb by (intro WriteBatch.equality) simp_all
    ultimately show ?thesis
      by simp
  qed
qed

text \<open>
  Claim C3. Setting a save point, performing any sequence of appends none of which clears
  the stack, and rolling back gives the batch before the save point: same buffer (hence
  same header count), same content flags, same termination point and bound, and the stack
  it had (the empty stack if it had none).
\<close>

theorem rollback_undoes_appends:
  assumes "kHeader \<le> length (rep b)"
    and "\<forall>x \<in> set X. \<not> clears_save_points x"
  shows "WriteBatch_RollbackToSavePoint (run_appends (WriteBatch_SetSavePoint b) X) =
     (OK, b\<lparr>save_points := Some (case save_points b of None \<Rightarrow> [] | Some st \<Rightarrow> st)\<rparr>)"
proof -
  from assms(1) have len: "12 \<le> length (rep b)"
    by (simp add: kHeader_def)
  then have len1: "12 \<le> length (rep (WriteBatch_SetSavePoint b))"
    by (simp add: WriteBatch_SetSavePoint_def Let_def)
  have "grown (WriteBatch_SetSavePoint b) (WriteBatch_SetSavePoint b)"
    by (simp add: grown_def)
  from grown_run_appends [OF len1 this assms(2)] show ?thesis
    by (rule Rollback_grown [OF len])
qed

theorem rollback_undoes_appends_witness:
  "kHeader \<le> length (rep (run_appends (WriteBatch_new 0) [OpPut 0 [0x61] [0x31]]))
   \<and> \<not> clears_save_points (OpPut 0 [0x62] [0x32])
   \<and> \<not> clears_save_points (OpPutLogData [0x7A])
   \<and> \<not> clears_save_points (OpDelete 7 [0x61])
   \<and> fst (WriteBatch_RollbackToSavePoint
       (run_appends (WriteBatch_SetSavePoint (run_appends (WriteBatch_new 0) [OpPut 0 [0x61] [0x31]]))
          [OpPut 0 [0x62] [0x32], OpPutLogData [0x7A], OpDelete 7 [0x61]])) = OK
   \<and> rep (snd (WriteBatch_RollbackToSavePoint
       (run_appends (WriteBatch_SetSavePoint (run_appends (WriteBatch_new 0) [OpPut 0 [0x61] [0x31]]))
          [OpPut 0 [0x62] [0x32], OpPutLogData [0x7A], OpDelete 7 [0x61]])))
       = [0, 0, 0, 0, 0, 0, 0, 0, 1, 0, 0, 0, 1, 1, 0x61, 1, 0x31]"
proof -
  let ?b = "run_appends (WriteBatch_new 0) [OpPut 0 [0x61] [0x31]]"
  let ?X = "[OpPut 0 [0x62] [0x32], OpPutLogData [0x7A], OpDelete 7 [0x61]]"
  have h: "kHeader \<le> length (rep ?b)"
    by code_simp
  have c: "\<forall>x \<in> set ?X. \<not> clears_save_points x"
    by simp
  have r: "rep ?b = [0, 0, 0, 0, 0, 0, 0, 0, 1, 0, 0, 0, 1, 1, 0x61, 1, 0x31]"
    by code_simp
  from rollback_undoes_appends [OF h c] h c r show ?thesis
    by simp
qed

section \<open>Iteration\<close>

lemma GetVarint_append:
  "GetVarint k shift acc p = Some (n, rest) \<Longrightarrow> GetVarint k shift acc (p @ q) = Some (n, rest @ q)"
  by (induction k shift acc p rule: GetVarint.induct) (auto split: if_splits)

lemma GetVarint32_append:
  "GetVarint32 p = Some (v, rest) \<Longrightarrow> GetVarint32 (p @ q) = Some (v, rest @ q)"
proof -
  assume a: "GetVarint32 p = Some (v, rest)"
  then obtain n where g: "GetVarint 5 0 0 p = Some (n, rest)" and v: "v = of_nat n"
    by (auto simp: GetVarint32_def split: option.splits)
  from GetVarint_append [OF g, of q] v show ?thesis
    by (simp add: GetVarint32_def)
qed

lemma GetLengthPrefixedSlice_append:
  "GetLengthPrefixedSlice p = Some (s, rest) \<Longrightarrow>
   GetLengthPrefixedSlice (p @ q) = Some (s, rest @ q)"
proof -
  assume a: "GetLengthPrefixedSlice p = Some (s, rest)"
  then obtain len r where g: "GetVarint32 p = Some (len, r)" and l: "unat len \<le> length r"
    and s: "s = take (unat len) r" and rest: "rest = drop (unat len) r"
    by (auto simp: GetLengthPrefixedSlice_def split: option.splits if_splits)
  from GetVarint32_append [OF g, of q] l s rest show ?thesis
    by (simp add: GetLengthPrefixedSlice_def)
qed

lemma get_key_value_append:
  "get_key_value msg t cf p = Inr (r, rest) \<Longrightarrow> get_key_value msg t cf (p @ q) = Inr (r, rest @ q)"
proof -
  assume a: "get_key_value msg t cf p = Inr (r, rest)"
  then obtain k p1 where g1: "GetLengthPrefixedSlice p = Some (k, p1)"
    by (auto simp: get_key_value_def split: option.splits)
  with a obtain v p2 where g2: "GetLengthPrefixedSlice p1 = Some (v, p2)"
    by (auto simp: get_key_value_def split: option.splits)
  from a g1 g2 GetLengthPrefixedSlice_append [OF g1, of q] GetLengthPrefixedSlice_append [OF g2, of q]
  show ?thesis
    by (simp add: get_key_value_def)
qed

lemma get_key_append:
  "get_key msg t cf p = Inr (r, rest) \<Longrightarrow> get_key msg t cf (p @ q) = Inr (r, rest @ q)"
proof -
  assume a: "get_key msg t cf p = Inr (r, rest)"
  then obtain k p1 where g1: "GetLengthPrefixedSlice p = Some (k, p1)"
    by (auto simp: get_key_def split: option.splits)
  from a g1 GetLengthPrefixedSlice_append [OF g1, of q] show ?thesis
    by (simp add: get_key_def)
qed

lemma get_xid_append:
  "get_xid msg t p = Inr (r, rest) \<Longrightarrow> get_xid msg t (p @ q) = Inr (r, rest @ q)"
proof -
  assume a: "get_xid msg t p = Inr (r, rest)"
  then obtain k p1 where g1: "GetLengthPrefixedSlice p = Some (k, p1)"
    by (auto simp: get_xid_def split: option.splits)
  from a g1 GetLengthPrefixedSlice_append [OF g1, of q] show ?thesis
    by (simp add: get_xid_def)
qed

lemma get_cf_append:
  assumes "\<And>cf p rest. cont cf p = Inr (r, rest) \<Longrightarrow> cont cf (p @ q) = Inr (r, rest @ q)"
    and a: "get_cf msg p cont = Inr (r, rest)"
  shows "get_cf msg (p @ q) cont = Inr (r, rest @ q)"
proof -
  from a obtain cf p1 where g1: "GetVarint32 p = Some (cf, p1)"
    by (auto simp: get_cf_def split: option.splits)
  with a have "cont cf p1 = Inr (r, rest)"
    by (simp add: get_cf_def)
  from assms(1) [OF this] GetVarint32_append [OF g1, of q] show ?thesis
    by (simp add: get_cf_def)
qed

lemma read_fields_append:
  assumes "read_fields t p = Inr (r, rest)"
  shows "read_fields t (p @ q) = Inr (r, rest @ q)"
proof (cases t)
  case kTypeLogData
  with assms obtain k p1 where g1: "GetLengthPrefixedSlice p = Some (k, p1)"
    by (auto split: option.splits)
  from assms kTypeLogData g1 GetLengthPrefixedSlice_append [OF g1, of q] show ?thesis
    by simp
qed (use assms in \<open>simp_all add: get_key_value_append get_key_append get_xid_append
      get_cf_append [where cont = "get_key_value m t'" for m t']
      get_cf_append [where cont = "get_key m t'" for m t']\<close>)

lemma ReadRecordFromWriteBatch_append:
  "ReadRecordFromWriteBatch c p = Inr (r, rest) \<Longrightarrow>
   ReadRecordFromWriteBatch c (p @ q) = Inr (r, rest @ q)"
  by (auto simp: ReadRecordFromWriteBatch_def split: option.splits dest: read_fields_append)

lemma Iterate_loop_stop:
  "Continue H h = (False, h') \<Longrightarrow> Iterate_loop H (c # input) found h = Some (Stopped found h')"
  by simp

lemma Iterate_loop_return:
  "Continue H h = (True, h') \<Longrightarrow> ReadRecordFromWriteBatch c input = Inl s \<Longrightarrow>
   Iterate_loop H (c # input) found h = Some (Return s h')"
  by simp

lemma Iterate_loop_diverge:
  "Continue H h = (True, h') \<Longrightarrow> ReadRecordFromWriteBatch c input = Inr (r, rest) \<Longrightarrow>
   dispatch H r h' = None \<Longrightarrow> Iterate_loop H (c # input) found h = None"
  by simp

lemma Iterate_loop_step:
  "Continue H h = (True, h') \<Longrightarrow> ReadRecordFromWriteBatch c input = Inr (r, rest) \<Longrightarrow>
   dispatch H r h' = Some (s, m, h'') \<Longrightarrow>
   Iterate_loop H (c # input) found h =
     (if ok s then Iterate_loop H rest (found + m) h'' else Some (Failed s (found + m) h''))"
  by simp

lemma Iterate_loop_cases:
  obtains (stop) h' where "Continue H h = (False, h')"
  | (return) h' s where "Continue H h = (True, h')" "ReadRecordFromWriteBatch c input = Inl s"
  | (diverge) h' r rest where "Continue H h = (True, h')"
      "ReadRecordFromWriteBatch c input = Inr (r, rest)" "dispatch H r h' = None"
  | (step) h' r rest s m h'' where "Continue H h = (True, h')"
      "ReadRecordFromWriteBatch c input = Inr (r, rest)" "dispatch H r h' = Some (s, m, h'')"
proof -
  obtain go h' where cont: "Continue H h = (go, h')"
    by (cases "Continue H h")
  show ?thesis
  proof (cases go)
    case False
    with cont stop show ?thesis by simp
  next
    case True
    show ?thesis
    proof (cases "ReadRecordFromWriteBatch c input")
      case (Inl s)
      with cont True return show ?thesis by simp
    next
      case (Inr b)
      obtain r rest where b: "b = (r, rest)"
        by (cases b)
      show ?thesis
      proof (cases "dispatch H r h'")
        case None
        with cont True Inr b diverge show ?thesis by simp
      next
        case (Some x)
        obtain s m h'' where "x = (s, m, h'')"
          by (cases x)
        with cont True Inr b Some step show ?thesis by simp
      qed
    qed
  qed
qed

declare Iterate_loop.simps(2) [simp del]

lemma Iterate_loop_append:
  "Iterate_loop H p n h = Some (Exhausted n1 h1) \<Longrightarrow>
   Iterate_loop H (p @ q) n h = Iterate_loop H q n1 h1"
proof (induction H p n h rule: Iterate_loop.induct)
  case (1 H found h)
  then show ?case by simp
next
  case (2 H c input found h)
  show ?case
  proof (cases rule: Iterate_loop_cases [where H = H and h = h and c = c and input = input])
    case (stop h')
    with "2.prems" show ?thesis
      by (simp add: Iterate_loop_stop)
  next
    case (return h' s)
    with "2.prems" show ?thesis
      by (simp add: Iterate_loop_return)
  next
    case (diverge h' r rest)
    with "2.prems" show ?thesis
      by (simp add: Iterate_loop_diverge)
  next
    case (step h' r rest s m h'')
    from "2.prems" have oks: "ok s"
      unfolding Iterate_loop_step [OF step] by (cases "ok s") simp_all
    with "2.prems" have "Iterate_loop H rest (found + m) h'' = Some (Exhausted n1 h1)"
      unfolding Iterate_loop_step [OF step] by simp
    from "2.IH" [OF step(1) [symmetric] refl step(2) refl step(3) refl refl oks this]
    have "Iterate_loop H (rest @ q) (found + m) h'' = Iterate_loop H q n1 h1" .
    moreover have "Iterate_loop H ((c # input) @ q) found h
        = Iterate_loop H (rest @ q) (found + m) h''"
      using Iterate_loop_step [OF step(1) ReadRecordFromWriteBatch_append [OF step(2), of q] step(3)]
        oks by simp
    ultimately show ?thesis by simp
  qed
qed

lemma dispatch_found:
  "dispatch H r h = Some (s, m, h') \<Longrightarrow> m = (if is_counted (p_tag r) then 1 else 0)"
  by (cases "p_tag r")
    (auto simp: dispatch_def counted_call_def marker_call_def split: option.splits)

lemma dispatch_returns_ok:
  assumes "returns_ok H"
  shows "\<exists>h'. dispatch H r h = Some (OK, if is_counted (p_tag r) then 1 else 0, h')"
proof -
  have c: "\<exists>h'. counted_call x = Some (OK, 1, h')" if "\<exists>h'. x = Some (OK, h')"
    for x :: "(Status \<times> 'a) option"
    using that by (auto simp: counted_call_def)
  have m: "\<exists>h'. marker_call x = Some (OK, 0, h')" if "x \<noteq> None"
    for x :: "(Status \<times> 'a) option"
    using that by (auto simp: marker_call_def)
  from assms show ?thesis
    unfolding returns_ok_def dispatch_def
    by (cases "p_tag r") (simp_all add: c m)
qed

lemma Iterate_loop_returns_ok:
  assumes "returns_ok H" and "never_stops H"
  shows "parse_records p = Some rs \<Longrightarrow>
    \<exists>h'. visit H rs h = Some h' \<and> Iterate_loop H p n h = Some (Exhausted (n + count_records rs) h')"
proof (induction p arbitrary: rs n h rule: parse_records.induct)
  case 1
  then show ?case by (simp add: count_records_def)
next
  case (2 c input)
  from "2.prems" obtain r rest where rd: "ReadRecordFromWriteBatch c input = Inr (r, rest)"
    by (cases "ReadRecordFromWriteBatch c input") auto
  with "2.prems" obtain rs' where rs': "parse_records rest = Some rs'" and rs: "rs = r # rs'"
    by (cases "parse_records rest") auto
  obtain h1 where cont: "Continue H h = (True, h1)"
    using assms(2) by (cases "Continue H h") (auto simp: never_stops_def dest: spec [of _ h])
  let ?m = "if is_counted (p_tag r) then 1 else 0 :: int"
  from dispatch_returns_ok [OF assms(1), of r h1]
  obtain h2 where d: "dispatch H r h1 = Some (OK, ?m, h2)"
    by blast
  from "2.IH" [OF rd refl rs', of h2 "n + ?m"]
  obtain h' where v: "visit H rs' h2 = Some h'"
    and l: "Iterate_loop H rest (n + ?m) h2 = Some (Exhausted (n + ?m + count_records rs') h')"
    by blast
  have "count_records rs = ?m + count_records rs'"
    by (simp add: rs count_records_def)
  with v l show ?case
    using Iterate_loop_step [OF cont rd d, of n] cont d by (simp add: rs ok_def add.assoc)
qed

text \<open>
  Claim C5. For a batch whose records all parse and a handler that returns OK and never
  stops, \<open>Iterate\<close> invokes the callback of every record and then succeeds exactly when
  the number of counted records equals the header count as \<open>Count\<close> reads it; in
  particular it fails with the wrong-count corruption, after all callbacks, when the header
  count is one larger; and on a batch that is just the header with count 0 it succeeds
  without touching the state of any handler.
\<close>

theorem Iterate_checks_count:
  assumes "kHeader \<le> length (rep b)"
    and "parse_records (drop kHeader (rep b)) = Some rs"
    and "returns_ok H" and "never_stops H"
  shows "(\<exists>h'. visit H rs h = Some h'
            \<and> Iterate H b h =
                Some (if count_records rs = Count b then OK
                      else Corruption ''WriteBatch has wrong count'', h'))
    \<and> (Count b = count_records rs + 1 \<longrightarrow>
         (\<exists>h'. visit H rs h = Some h'
            \<and> Iterate H b h = Some (Corruption ''WriteBatch has wrong count'', h')))
    \<and> (length (rep b) = kHeader \<and> Count b = 0 \<longrightarrow>
         (\<forall>H' (g :: 'c). Iterate H' b g = Some (OK, g)))"
proof -
  from Iterate_loop_returns_ok [OF assms(3,4,2), of h 0]
  obtain h' where v: "visit H rs h = Some h'"
    and l: "Iterate_loop H (drop kHeader (rep b)) 0 h = Some (Exhausted (count_records rs) h')"
    by auto
  from assms(1) l have it: "Iterate H b h =
      Some (if count_records rs = Count b then OK
            else Corruption ''WriteBatch has wrong count'', h')"
    by (simp add: Iterate_def)
  have "Iterate H' b g = Some (OK, g)"
    if "length (rep b) = kHeader" "Count b = 0" for H' and g :: 'c
    using that by (simp add: Iterate_def)
  with v it show ?thesis
    by auto
qed

lemma returns_ok_BatchContentClassifier: "returns_ok BatchContentClassifier"
  by (simp add: returns_ok_def BatchContentClassifier_def)

lemma never_stops_BatchContentClassifier: "never_stops BatchContentClassifier"
  by (simp add: never_stops_def BatchContentClassifier_def)

theorem Iterate_checks_count_witness:
  "kHeader \<le> length (rep (WriteBatch_from [0, 0, 0, 0, 0, 0, 0, 0, 2, 0, 0, 0, 1, 1, 0x61, 1, 0x31]))
   \<and> parse_records
        (drop kHeader (rep (WriteBatch_from [0, 0, 0, 0, 0, 0, 0, 0, 2, 0, 0, 0, 1, 1, 0x61, 1, 0x31])))
       = Some [\<lparr>p_tag = kTypeValue, p_column_family = 0, p_key = [0x61], p_value = [0x31],
                p_blob = [], p_xid = []\<rparr>]
   \<and> returns_ok BatchContentClassifier \<and> never_stops BatchContentClassifier
   \<and> Iterate BatchContentClassifier
        (WriteBatch_from [0, 0, 0, 0, 0, 0, 0, 0, 2, 0, 0, 0, 1, 1, 0x61, 1, 0x31]) 0
       = Some (Corruption ''WriteBatch has wrong count'', HAS_PUT)
   \<and> Iterate BatchContentClassifier (WriteBatch_new 0) 0 = Some (OK, 0)"
proof -
  let ?b = "WriteBatch_from [0, 0, 0, 0, 0, 0, 0, 0, 2, 0, 0, 0, 1, 1, 0x61, 1, 0x31]"
  let ?rs = "[\<lparr>p_tag = kTypeValue, p_column_family = 0, p_key = [0x61], p_value = [0x31],
                p_blob = [], p_xid = []\<rparr>]"
  have h: "kHeader \<le> length (rep ?b)"
    by code_simp
  have p: "parse_records (drop kHeader (rep ?b)) = Some ?rs"
    by code_simp
  have c: "Count ?b = count_records ?rs + 1"
    by code_simp
  have v: "visit BatchContentClassifier ?rs 0 = Some HAS_PUT"
    by code_simp
  have h0: "kHeader \<le> length (rep (WriteBatch_new 0))"
    by code_simp
  have p0: "parse_records (drop kHeader (rep (WriteBatch_new 0))) = Some []"
    by code_simp
  have e0: "length (rep (WriteBatch_new 0)) = kHeader \<and> Count (WriteBatch_new 0) = 0"
    by code_simp
  from Iterate_checks_count [OF h p returns_ok_BatchContentClassifier
      never_stops_BatchContentClassifier, of 0] c v
  have 1: "Iterate BatchContentClassifier ?b 0 = Some (Corruption ''WriteBatch has wrong count'', HAS_PUT)"
    by auto
  from Iterate_checks_count [where ?'c = "32 word", OF h0 p0 returns_ok_BatchContentClassifier
      never_stops_BatchContentClassifier, of 0] e0
  have 2: "Iterate BatchContentClassifier (WriteBatch_new 0) 0 = Some (OK, 0)"
    by blast
  from h p 1 2 show ?thesis
    using returns_ok_BatchContentClassifier never_stops_BatchContentClassifier by simp
qed

text \<open>
  Claim C10. On a well-formed batch (all records parse, the header count is the number of
  counted records), if the handler has let the records of a prefix \<open>p1\<close> of the payload
  through, \<open>n\<close> of them counted and fewer than the header count, and then answers false
  to \<open>Continue\<close> while input remains, \<open>Iterate\<close> returns the wrong-count corruption, not
  OK.
\<close>

theorem Iterate_stopped_early:
  assumes "kHeader \<le> length (rep b)"
    and "parse_records (drop kHeader (rep b)) = Some rs"
    and "Count b = count_records rs"
    and "drop kHeader (rep b) = p1 @ p2" and "p2 \<noteq> []"
    and "Iterate_loop H p1 0 h = Some (Exhausted n h1)"
    and "Continue H h1 = (False, h2)"
    and "n < count_records rs"
  shows "Iterate H b h = Some (Corruption ''WriteBatch has wrong count'', h2)"
proof -
  from assms(5) obtain c input where p2: "p2 = c # input"
    by (cases p2) simp_all
  have "Iterate_loop H (drop kHeader (rep b)) 0 h = Iterate_loop H p2 n h1"
    unfolding assms(4) by (rule Iterate_loop_append [OF assms(6)])
  also have "\<dots> = Some (Stopped n h2)"
    unfolding p2 by (rule Iterate_loop_stop [OF assms(7)])
  finally show ?thesis
    using assms(1,3,8) by (simp add: Iterate_def)
qed

theorem Iterate_stopped_early_witness:
  "kHeader \<le> length (rep (run_appends (WriteBatch_new 0) [OpPut 0 [0x61] [0x31], OpPut 0 [0x62] [0x32]]))
   \<and> parse_records (drop kHeader
         (rep (run_appends (WriteBatch_new 0) [OpPut 0 [0x61] [0x31], OpPut 0 [0x62] [0x32]])))
       = Some [\<lparr>p_tag = kTypeValue, p_column_family = 0, p_key = [0x61], p_value = [0x31],
                p_blob = [], p_xid = []\<rparr>,
               \<lparr>p_tag = kTypeValue, p_column_family = 0, p_key = [0x62], p_value = [0x32],
                p_blob = [], p_xid = []\<rparr>]
   \<and> Count (run_appends (WriteBatch_new 0) [OpPut 0 [0x61] [0x31], OpPut 0 [0x62] [0x32]]) = 2
   \<and> Iterate_loop (BatchContentClassifier\<lparr>Continue := \<lambda>f. (f = 0, f)\<rparr>) [1, 1, 0x61, 1, 0x31] 0 0
       = Some (Exhausted 1 HAS_PUT)
   \<and> Continue (BatchContentClassifier\<lparr>Continue := \<lambda>f. (f = 0, f)\<rparr>) HAS_PUT = (False, HAS_PUT)
   \<and> Iterate (BatchContentClassifier\<lparr>Continue := \<lambda>f. (f = 0, f)\<rparr>)
        (run_appends (WriteBatch_new 0) [OpPut 0 [0x61] [0x31], OpPut 0 [0x62] [0x32]]) 0
       = Some (Corruption ''WriteBatch has wrong count'', HAS_PUT)"
proof -
  let ?b = "run_appends (WriteBatch_new 0) [OpPut 0 [0x61] [0x31], OpPut 0 [0x62] [0x32]]"
  let ?rs = "[\<lparr>p_tag = kTypeValue, p_column_family = 0, p_key = [0x61], p_value = [0x31],
                p_blob = [], p_xid = []\<rparr>,
               \<lparr>p_tag = kTypeValue, p_column_family = 0, p_key = [0x62], p_value = [0x32],
                p_blob = [], p_xid = []\<rparr>]"
  let ?H = "BatchContentClassifier\<lparr>Continue := \<lambda>f. (f = 0, f)\<rparr>"
  have h: "kHeader \<le> length (rep ?b)"
    by code_simp
  have p: "parse_records (drop kHeader (rep ?b)) = Some ?rs"
    by code_simp
  have c: "Count ?b = count_records ?rs"
    by code_simp
  have c2: "Count ?b = 2"
    by code_simp
  have d: "drop kHeader (rep ?b) = [1, 1, 0x61, 1, 0x31] @ [1, 1, 0x62, 1, 0x32]"
    by code_simp
  have l: "Iterate_loop ?H [1, 1, 0x61, 1, 0x31] 0 0 = Some (Exhausted 1 HAS_PUT)"
    by code_simp
  have s: "Continue ?H HAS_PUT = (False, HAS_PUT)"
    by code_simp
  have n: "1 < count_records ?rs"
    by code_simp
  from Iterate_stopped_early [OF h p c d _ l s n] h p c2 l s show ?thesis
    by simp
qed

lemma header_take8:
  "12 \<le> length r \<Longrightarrow> take 8 (take 8 r @ EncodeFixed32 w @ drop 12 r @ ext) = take 8 r"
  by simp

lemma header_drop12:
  "12 \<le> length r \<Longrightarrow> drop 12 (take 8 r @ EncodeFixed32 w @ drop 12 r @ ext) = drop 12 r @ ext"
  by simp

lemma header_decode:
  "12 \<le> length r \<Longrightarrow>
   DecodeFixed32 (drop 8 (take 8 r @ EncodeFixed32 w @ drop 12 r @ ext)) = w"
  by (simp add: DecodeFixed32_EncodeFixed32)

lemma read_bytes:
  "k + n \<le> length xs \<Longrightarrow> map (\<lambda>i. xs ! (k + i)) [0..<n] = take n (drop k xs)"
  by (rule nth_equalityI) simp_all

text \<open>
  Claim C6, as amended. For batches whose buffers hold the header, \<open>Append\<close> without
  \<open>wal_only\<close> keeps the sequence bytes of the destination, appends the payload of the
  source after the payload of the destination, adds the two header counts (as 32-bit
  fields) and ORs the content flags; and whenever iterating the destination alone runs to
  the end of its payload, iterating the appended batch is iterating the source's payload
  from the state and count reached there. With \<open>wal_only\<close> and a termination point set
  in the source that lies within its buffer, the payload up to that point, and the count
  and flags stored in it, are used instead.
\<close>

theorem Append_concatenates:
  assumes "kHeader \<le> length (rep A)" and "kHeader \<le> length (rep B)"
  shows "(\<exists>A'. WriteBatchInternal_Append A B False = (OK, A')
        \<and> take 8 (rep A') = take 8 (rep A)
        \<and> drop kHeader (rep A') = drop kHeader (rep A) @ drop kHeader (rep B)
        \<and> DecodeFixed32 (drop 8 (rep A'))
            = DecodeFixed32 (drop 8 (rep A)) + DecodeFixed32 (drop 8 (rep B))
        \<and> content_flags A' = content_flags A OR content_flags B
        \<and> (\<forall>(H :: 'h Handler) h n h1.
              Iterate_loop H (drop kHeader (rep A)) 0 h = Some (Exhausted n h1) \<longrightarrow>
              Iterate_loop H (drop kHeader (rep A')) 0 h
                = Iterate_loop H (drop kHeader (rep B)) n h1))
    \<and> (\<not> is_cleared (wal_term_point B) \<and> kHeader \<le> sp_size (wal_term_point B)
          \<and> sp_size (wal_term_point B) \<le> length (rep B) \<longrightarrow>
        (\<exists>A'. WriteBatchInternal_Append A B True = (OK, A')
          \<and> take 8 (rep A') = take 8 (rep A)
          \<and> drop kHeader (rep A')
              = drop kHeader (rep A) @ drop kHeader (take (sp_size (wal_term_point B)) (rep B))
          \<and> DecodeFixed32 (drop 8 (rep A'))
              = DecodeFixed32 (drop 8 (rep A)) + word_of_int (sp_count (wal_term_point B))
          \<and> content_flags A' = content_flags A OR sp_content_flags (wal_term_point B)))"
proof -
  from assms have lenA: "12 \<le> length (rep A)" and lenB: "12 \<le> length (rep B)"
    by (simp_all add: kHeader_def)
  let ?wt = "wal_term_point B"
  define w1 :: "32 word" where "w1 = word_of_int (Count A + Count B)"
  define w2 :: "32 word" where "w2 = word_of_int (Count A + sp_count ?wt)"
  define A1 where "A1 = A\<lparr>rep := take 8 (rep A) @ EncodeFixed32 w1 @ drop 12 (rep A) @ drop 12 (rep B),
               content_flags := content_flags A OR content_flags B\<rparr>"
  define A2 where "A2 = A\<lparr>rep := take 8 (rep A) @ EncodeFixed32 w2 @ drop 12 (rep A)
                   @ take (sp_size ?wt - 12) (drop 12 (rep B)),
               content_flags := content_flags A OR sp_content_flags ?wt\<rparr>"
  have r1: "map (\<lambda>i. rep B ! (12 + i)) [0..<size_sub (length (rep B)) 12] = drop 12 (rep B)"
    using lenB read_bytes [of 12 "length (rep B) - 12" "rep B"] by (simp add: size_sub_def)
  have r2: "map (\<lambda>i. rep B ! (12 + i)) [0..<size_sub (sp_size ?wt) 12]
      = take (sp_size ?wt - 12) (drop 12 (rep B))"
    if "12 \<le> sp_size ?wt" and "sp_size ?wt \<le> length (rep B)"
    using that read_bytes [of 12 "sp_size ?wt - 12" "rep B"] by (simp add: size_sub_def)
  have a1: "WriteBatchInternal_Append A B False = (OK, A1)"
    unfolding A1_def w1_def
    by (simp add: WriteBatchInternal_Append_def Let_def SetCount_def kHeader_def r1)
  have a2: "WriteBatchInternal_Append A B True = (OK, A2)"
    if "\<not> is_cleared ?wt" and "kHeader \<le> sp_size ?wt" and "sp_size ?wt \<le> length (rep B)"
    unfolding A2_def w2_def using that
    by (simp add: WriteBatchInternal_Append_def Let_def SetCount_def kHeader_def r2)
  have rep1: "rep A1 = take 8 (rep A) @ EncodeFixed32 w1 @ drop 12 (rep A) @ drop 12 (rep B)"
    by (simp add: A1_def)
  have rep2: "rep A2 = take 8 (rep A) @ EncodeFixed32 w2 @ drop 12 (rep A)
      @ take (sp_size ?wt - 12) (drop 12 (rep B))"
    by (simp add: A2_def)
  have sum1: "w1 = DecodeFixed32 (drop 8 (rep A)) + DecodeFixed32 (drop 8 (rep B))"
    by (simp add: w1_def Count_def)
  have sum2: "w2 = DecodeFixed32 (drop 8 (rep A)) + word_of_int (sp_count ?wt)"
    by (simp add: w2_def Count_def)
  have t1: "take 8 (rep A1) = take 8 (rep A)"
    unfolding rep1 by (rule header_take8 [OF lenA])
  have d1: "drop kHeader (rep A1) = drop kHeader (rep A) @ drop kHeader (rep B)"
    unfolding rep1 kHeader_def by (rule header_drop12 [OF lenA])
  have c1: "DecodeFixed32 (drop 8 (rep A1))
      = DecodeFixed32 (drop 8 (rep A)) + DecodeFixed32 (drop 8 (rep B))"
    unfolding rep1 header_decode [OF lenA] by (rule sum1)
  have f1: "content_flags A1 = content_flags A OR content_flags B"
    by (simp add: A1_def)
  have it: "Iterate_loop H (drop kHeader (rep A1)) 0 h = Iterate_loop H (drop kHeader (rep B)) n h1"
    if "Iterate_loop H (drop kHeader (rep A)) 0 h = Some (Exhausted n h1)"
    for H :: "'h Handler" and h n h1
    unfolding d1 by (rule Iterate_loop_append [OF that])
  have t2: "take 8 (rep A2) = take 8 (rep A)"
    unfolding rep2 by (rule header_take8 [OF lenA])
  have d2: "drop kHeader (rep A2)
      = drop kHeader (rep A) @ drop kHeader (take (sp_size ?wt) (rep B))"
    unfolding rep2 kHeader_def header_drop12 [OF lenA] by (simp add: drop_take)
  have c2: "DecodeFixed32 (drop 8 (rep A2))
      = DecodeFixed32 (drop 8 (rep A)) + word_of_int (sp_count ?wt)"
    unfolding rep2 header_decode [OF lenA] by (rule sum2)
  have f2: "content_flags A2 = content_flags A OR sp_content_flags ?wt"
    by (simp add: A2_def)
  from a1 t1 d1 c1 f1 it a2 t2 d2 c2 f2 show ?thesis
    by blast
qed

theorem Append_concatenates_witness:
  "kHeader \<le> length (rep (run_appends (WriteBatch_new 0) [OpPut 0 [0x61] [0x31]]))
   \<and> kHeader \<le> length (rep (run_appends
         (MarkWalTerminationPoint (run_appends (WriteBatch_new 0) [OpDelete 0 [0x78]]))
         [OpPut 7 [0x62] [0x32]]))
   \<and> \<not> is_cleared (wal_term_point (run_appends
         (MarkWalTerminationPoint (run_appends (WriteBatch_new 0) [OpDelete 0 [0x78]]))
         [OpPut 7 [0x62] [0x32]]))
   \<and> kHeader \<le> sp_size (wal_term_point (run_appends
         (MarkWalTerminationPoint (run_appends (WriteBatch_new 0) [OpDelete 0 [0x78]]))
         [OpPut 7 [0x62] [0x32]]))
   \<and> sp_size (wal_term_point (run_appends
         (MarkWalTerminationPoint (run_appends (WriteBatch_new 0) [OpDelete 0 [0x78]]))
         [OpPut 7 [0x62] [0x32]]))
       \<le> length (rep (run_appends
         (MarkWalTerminationPoint (run_appends (WriteBatch_new 0) [OpDelete 0 [0x78]]))
         [OpPut 7 [0x62] [0x32]]))
   \<and> (\<exists>A'. WriteBatchInternal_Append (run_appends (WriteBatch_new 0) [OpPut 0 [0x61] [0x31]])
          (run_appends (MarkWalTerminationPoint (run_appends (WriteBatch_new 0) [OpDelete 0 [0x78]]))
             [OpPut 7 [0x62] [0x32]]) False = (OK, A')
        \<and> DecodeFixed32 (drop 8 (rep A')) = 3
        \<and> Iterate_loop Recorder (drop kHeader (rep A')) 0 []
            = Some (Exhausted 3 [CallPut 0 [0x61] [0x31], CallDelete 0 [0x78], CallPut 7 [0x62] [0x32]]))
   \<and> (\<exists>A'. WriteBatchInternal_Append (run_appends (WriteBatch_new 0) [OpPut 0 [0x61] [0x31]])
          (run_appends (MarkWalTerminationPoint (run_appends (WriteBatch_new 0) [OpDelete 0 [0x78]]))
             [OpPut 7 [0x62] [0x32]]) True = (OK, A')
        \<and> DecodeFixed32 (drop 8 (rep A')) = 2
        \<and> drop kHeader (rep A') = [1, 1, 0x61, 1, 0x31, 0, 1, 0x78])"
proof -
  let ?A = "run_appends (WriteBatch_new 0) [OpPut 0 [0x61] [0x31]]"
  let ?B = "run_appends (MarkWalTerminationPoint (run_appends (WriteBatch_new 0) [OpDelete 0 [0x78]]))
             [OpPut 7 [0x62] [0x32]]"
  have hA: "kHeader \<le> length (rep ?A)"
    by code_simp
  have hB: "kHeader \<le> length (rep ?B)"
    by code_simp
  have nc: "\<not> is_cleared (wal_term_point ?B)"
    by code_simp
  have sz: "kHeader \<le> sp_size (wal_term_point ?B)"
    by code_simp
  have sl: "sp_size (wal_term_point ?B) \<le> length (rep ?B)"
    by code_simp
  have lA: "Iterate_loop Recorder (drop kHeader (rep ?A)) 0 [] = Some (Exhausted 1 [CallPut 0 [0x61] [0x31]])"
    by code_simp
  have lB: "Iterate_loop Recorder (drop kHeader (rep ?B)) 1 [CallPut 0 [0x61] [0x31]]
      = Some (Exhausted 3 [CallPut 0 [0x61] [0x31], CallDelete 0 [0x78], CallPut 7 [0x62] [0x32]])"
    by code_simp
  have cA: "DecodeFixed32 (drop 8 (rep ?A)) = 1"
    by code_simp
  have cB: "DecodeFixed32 (drop 8 (rep ?B)) = 2"
    by code_simp
  have cW: "sp_count (wal_term_point ?B) = 1"
    by code_simp
  have pA: "drop kHeader (rep ?A) = [1, 1, 0x61, 1, 0x31]"
    by code_simp
  have pB: "drop kHeader (take (sp_size (wal_term_point ?B)) (rep ?B)) = [0, 1, 0x78]"
    by code_simp
  note ac = Append_concatenates [where ?'h = "callback list", OF hA hB]
  from ac obtain A1 where a1: "WriteBatchInternal_Append ?A ?B False = (OK, A1)"
    and c1: "DecodeFixed32 (drop 8 (rep A1))
            = DecodeFixed32 (drop 8 (rep ?A)) + DecodeFixed32 (drop 8 (rep ?B))"
    and i1: "\<And>(H :: callback list Handler) h n h1.
              Iterate_loop H (drop kHeader (rep ?A)) 0 h = Some (Exhausted n h1) \<Longrightarrow>
              Iterate_loop H (drop kHeader (rep A1)) 0 h
                = Iterate_loop H (drop kHeader (rep ?B)) n h1"
    by blast
  from ac nc sz sl obtain A2 where a2: "WriteBatchInternal_Append ?A ?B True = (OK, A2)"
    and d2: "drop kHeader (rep A2)
              = drop kHeader (rep ?A) @ drop kHeader (take (sp_size (wal_term_point ?B)) (rep ?B))"
    and c2: "DecodeFixed32 (drop 8 (rep A2))
              = DecodeFixed32 (drop 8 (rep ?A)) + word_of_int (sp_count (wal_term_point ?B))"
    by blast
  have r1: "Iterate_loop Recorder (drop kHeader (rep A1)) 0 []
      = Some (Exhausted 3 [CallPut 0 [0x61] [0x31], CallDelete 0 [0x78], CallPut 7 [0x62] [0x32]])"
    using i1 [OF lA] lB by simp
  have n1: "DecodeFixed32 (drop 8 (rep A1)) = 3"
    unfolding c1 cA cB by simp
  have n2: "DecodeFixed32 (drop 8 (rep A2)) = 2"
    unfolding c2 cA cW by simp
  have p2: "drop kHeader (rep A2) = [1, 1, 0x61, 1, 0x31, 0, 1, 0x78]"
    unfolding d2 pA pB by simp
  from hA hB nc sz sl a1 n1 r1 a2 n2 p2 show ?thesis
    by blast
qed

text \<open>
  Claim C6 as stated, for any two batches, fails when the last record of the destination is
  truncated: the destination alone gives no callback, the source alone a delete, the
  appended batch a put (the truncated record completed by the first bytes of the source).
  It fails with \<open>wal_only\<close> when the source has been rolled back to a save point older than
  its termination point: after a put, a save point, a second put, the termination point and
  the rollback, the termination point is at 22 bytes of a buffer of 17, and the append
  copies 10 bytes where the payload of the source has 5.
\<close>

theorem Append_truncated_counterexample:
  "Iterate Recorder (WriteBatch_from [0, 0, 0, 0, 0, 0, 0, 0, 1, 0, 0, 0, 1, 0]) []
     = Some (Corruption ''bad WriteBatch Put'', [])
   \<and> Iterate Recorder (run_appends (WriteBatch_new 0) [OpDelete 0 []]) []
     = Some (OK, [CallDelete 0 []])
   \<and> Iterate Recorder
       (snd (WriteBatchInternal_Append (WriteBatch_from [0, 0, 0, 0, 0, 0, 0, 0, 1, 0, 0, 0, 1, 0])
          (run_appends (WriteBatch_new 0) [OpDelete 0 []]) False)) []
     = Some (Corruption ''bad WriteBatch Delete'', [CallPut 0 [] []])
   \<and> [CallPut 0 [] []] \<noteq> [] @ [CallDelete 0 []]
   \<and> fst (WriteBatch_RollbackToSavePoint (MarkWalTerminationPoint
         (run_appends (WriteBatch_SetSavePoint (run_appends (WriteBatch_new 0) [OpPut 0 [0x61] [0x31]]))
            [OpPut 0 [0x62] [0x32]]))) = OK
   \<and> \<not> is_cleared (wal_term_point (snd (WriteBatch_RollbackToSavePoint (MarkWalTerminationPoint
         (run_appends (WriteBatch_SetSavePoint (run_appends (WriteBatch_new 0) [OpPut 0 [0x61] [0x31]]))
            [OpPut 0 [0x62] [0x32]])))))
   \<and> sp_size (wal_term_point (snd (WriteBatch_RollbackToSavePoint (MarkWalTerminationPoint
         (run_appends (WriteBatch_SetSavePoint (run_appends (WriteBatch_new 0) [OpPut 0 [0x61] [0x31]]))
            [OpPut 0 [0x62] [0x32]]))))) = 22
   \<and> length (rep (snd (WriteBatch_RollbackToSavePoint (MarkWalTerminationPoint
         (run_appends (WriteBatch_SetSavePoint (run_appends (WriteBatch_new 0) [OpPut 0 [0x61] [0x31]]))
            [OpPut 0 [0x62] [0x32]]))))) = 17
   \<and> length (rep (snd (WriteBatchInternal_Append (WriteBatch_new 0)
         (snd (WriteBatch_RollbackToSavePoint (MarkWalTerminationPoint
           (run_appends (WriteBatch_SetSavePoint (run_appends (WriteBatch_new 0) [OpPut 0 [0x61] [0x31]]))
              [OpPut 0 [0x62] [0x32]])))) True))) = 12 + 10"
  by code_simp

section \<open>Content flags\<close>

lemma tag_of_tag [simp]: "tag_of (tag t) = Some t"
  by (cases t) (simp_all add: tag_of_def)

lemma get_key_value_lp:
  "length k < 2 ^ 32 \<Longrightarrow> length v < 2 ^ 32 \<Longrightarrow>
   get_key_value msg t cf (lp k @ lp v @ rest) = Inr (mk_parsed t cf k v [] [], rest)"
  by (simp add: get_key_value_def GetLengthPrefixedSlice_lp mk_parsed_def)

lemma get_key_lp:
  "length k < 2 ^ 32 \<Longrightarrow> get_key msg t cf (lp k @ rest) = Inr (mk_parsed t cf k [] [] [], rest)"
  by (simp add: get_key_def GetLengthPrefixedSlice_lp mk_parsed_def)

lemma get_xid_lp:
  "length xid < 2 ^ 32 \<Longrightarrow> get_xid msg t (lp xid @ rest) = Inr (mk_parsed t 0 [] [] [] xid, rest)"
  by (simp add: get_xid_def GetLengthPrefixedSlice_lp mk_parsed_def)

lemma get_cf_EncodeVarint:
  "get_cf msg (EncodeVarint (unat cf) @ rest) cont = cont cf rest"
  by (simp add: get_cf_def GetVarint32_EncodeVarint)

lemma read_encoded:
  assumes "fits x"
  shows "\<exists>c fs. encoded x = c # fs
     \<and> (\<forall>rest. ReadRecordFromWriteBatch c (fs @ rest) = Inr (parsed_of x, rest))"
  using assms
  by (cases x)
    (simp_all add: cf_tag_def ReadRecordFromWriteBatch_def get_key_value_lp get_key_lp get_xid_lp
      get_cf_EncodeVarint GetLengthPrefixedSlice_lp mk_parsed_def del: tag.simps)

lemma classifier_Continue: "Continue BatchContentClassifier f = (True, f)"
  by (simp add: BatchContentClassifier_def)

lemma classifier_dispatch:
  "dispatch BatchContentClassifier r f =
     Some (OK, if is_counted (p_tag r) then 1 else 0, f OR class_flag (p_tag r))"
  by (cases "p_tag r")
    (simp_all add: dispatch_def BatchContentClassifier_def counted_call_def marker_call_def)

lemma classifier_step:
  assumes "ReadRecordFromWriteBatch c input = Inr (r, rest)"
  shows "Iterate_loop BatchContentClassifier (c # input) n f =
     Iterate_loop BatchContentClassifier rest (n + (if is_counted (p_tag r) then 1 else 0))
       (f OR class_flag (p_tag r))"
  using Iterate_loop_step [OF classifier_Continue assms classifier_dispatch, of n]
  by (simp add: ok_def)

lemma classifier_encoded:
  assumes "fits x"
  shows "Iterate_loop BatchContentClassifier (encoded x) n f =
     Some (Exhausted (n + (if is_counted (p_tag (parsed_of x)) then 1 else 0))
             (f OR class_flag (p_tag (parsed_of x))))"
proof -
  from read_encoded [OF assms] obtain c fs where e: "encoded x = c # fs"
    and r: "ReadRecordFromWriteBatch c (fs @ []) = Inr (parsed_of x, [])"
    by blast
  from r have "ReadRecordFromWriteBatch c fs = Inr (parsed_of x, [])"
    by simp
  from classifier_step [OF this] show ?thesis
    by (simp add: e)
qed

lemma class_flag_parsed_of:
  "\<not> clears_save_points x \<Longrightarrow> class_flag (p_tag (parsed_of x)) = flag_of x"
  by (cases x) (simp_all add: mk_parsed_def)

lemma classified_new: "classified (WriteBatch_new mb)"
  by (simp add: classified_def WriteBatch_new_def resize_def kHeader_def)

lemma classified_grow:
  assumes "classified b" and "fits x" and "\<not> clears_save_points x"
    and "length w = 4"
  shows "classified (b\<lparr>rep := take 8 (rep b) @ w @ drop 12 (rep b) @ encoded x,
                       content_flags := content_flags b OR flag_of x\<rparr>)"
proof -
  from assms(1) obtain k where len: "12 \<le> length (rep b)"
    and k: "\<And>n f. Iterate_loop BatchContentClassifier (drop 12 (rep b)) n f
                      = Some (Exhausted (n + k) (f OR content_flags b))"
    by (auto simp: classified_def)
  let ?m = "if is_counted (p_tag (parsed_of x)) then 1 else 0 :: int"
  have d: "drop 12 (take 8 (rep b) @ w @ drop 12 (rep b) @ encoded x)
      = drop 12 (rep b) @ encoded x"
    using len assms(4) by simp
  have "Iterate_loop BatchContentClassifier (drop 12 (rep b) @ encoded x) n f
      = Some (Exhausted (n + (k + ?m)) (f OR (content_flags b OR flag_of x)))" for n f
    unfolding Iterate_loop_append [OF k] classifier_encoded [OF assms(2)]
      class_flag_parsed_of [OF assms(3)]
    by (simp add: add.assoc or.assoc)
  with len assms(4) show ?thesis
    unfolding classified_def by (simp add: d del: drop_append)
qed

lemma classified_append:
  assumes "classified b" and "fits x" and "\<not> clears_save_points x"
  shows "classified (snd (append b x))"
proof -
  from assms(1) have len: "12 \<le> length (rep b)"
    by (simp add: classified_def)
  from append_no_clear_cases [OF len assms(3)] show ?thesis
  proof (elim disjE exE conjE)
    assume "append b x = (BatchTooLarge, b)"
    with assms(1) show ?thesis by simp
  next
    fix w
    assume "length w = 4"
      and "append b x = (OK, b\<lparr>rep := take 8 (rep b) @ w @ drop 12 (rep b) @ encoded x,
                                 content_flags := content_flags b OR flag_of x\<rparr>)"
    with classified_grow [OF assms this(1)] show ?thesis
      by simp
  qed
qed

lemma classified_MarkEndPrepare:
  assumes "classified b" and "length xid < 2 ^ 32" and "MarkEndPrepare_pre b"
  shows "classified (snd (WriteBatchInternal_MarkEndPrepare b xid))"
proof -
  from assms(1) obtain k where len: "12 \<le> length (rep b)"
    and k: "\<And>n f. Iterate_loop BatchContentClassifier (drop 12 (rep b)) n f
                      = Some (Exhausted (n + k) (f OR content_flags b))"
    by (auto simp: classified_def)
  from assms(3) have l13: "12 < length (rep b)" and noop: "rep b ! 12 = tag kTypeNoop"
    by (simp_all add: MarkEndPrepare_pre_def)
  define rest where "rest = drop 13 (rep b)"
  have pay: "drop 12 (rep b) = tag kTypeNoop # rest"
    using l13 noop unfolding rest_def
    by (metis Cons_nth_drop_Suc Suc_numeral semiring_norm(5) semiring_norm(8))
  have rd_noop: "ReadRecordFromWriteBatch (tag kTypeNoop) rest
      = Inr (mk_parsed kTypeNoop 0 [] [] [] [], rest)"
    by (simp add: ReadRecordFromWriteBatch_def mk_parsed_def del: tag.simps)
  have rd_begin: "ReadRecordFromWriteBatch (tag kTypeBeginPrepareXID) p
      = Inr (mk_parsed kTypeBeginPrepareXID 0 [] [] [] [], p)" for p
    by (simp add: ReadRecordFromWriteBatch_def mk_parsed_def del: tag.simps)
  have k': "Iterate_loop BatchContentClassifier rest n f
      = Some (Exhausted (n + k) (f OR content_flags b))" for n f
    using k [of n f] unfolding pay classifier_step [OF rd_noop]
    by (simp add: mk_parsed_def)
  let ?enc = "encoded (OpMarkEndPrepare xid)"
  let ?b = "b\<lparr>save_points := (case save_points b of None \<Rightarrow> None | Some st \<Rightarrow> Some []),
               rep := (rep b)[12 := tag kTypeBeginPrepareXID] @ ?enc,
               content_flags := content_flags b OR HAS_END_PREPARE OR HAS_BEGIN_PREPARE\<rparr>"
  have eq: "WriteBatchInternal_MarkEndPrepare b xid = (OK, ?b)"
    by (simp add: WriteBatchInternal_MarkEndPrepare_def Let_def push_back_def
        PutLengthPrefixedSlice_lp)
  have "drop 12 ((rep b)[12 := tag kTypeBeginPrepareXID]) = (drop 12 (rep b))[0 := tag kTypeBeginPrepareXID]"
    by (simp add: drop_update_swap)
  then have pay': "drop 12 ((rep b)[12 := tag kTypeBeginPrepareXID] @ ?enc)
      = tag kTypeBeginPrepareXID # rest @ ?enc"
    using l13 by (simp add: pay)
  have fx: "fits (OpMarkEndPrepare xid)"
    using assms(2) by simp
  have "Iterate_loop BatchContentClassifier (tag kTypeBeginPrepareXID # rest @ ?enc) n f
      = Some (Exhausted (n + k) (f OR (content_flags b OR HAS_END_PREPARE OR HAS_BEGIN_PREPARE)))"
    for n f
    unfolding classifier_step [OF rd_begin] mk_parsed_def
    using Iterate_loop_append [OF k' [of n "f OR HAS_BEGIN_PREPARE"], where q = ?enc]
      classifier_encoded [OF fx, of "n + k" "f OR HAS_BEGIN_PREPARE OR content_flags b"]
    by (simp add: mk_parsed_def ac_simps)
  then have loop: "\<exists>k. \<forall>n f.
      Iterate_loop BatchContentClassifier (tag kTypeBeginPrepareXID # rest @ ?enc) n f
      = Some (Exhausted (n + k) (f OR content_flags ?b))"
    by (auto simp del: tag.simps encoded.simps)
  have dp: "drop 12 (rep ?b) = tag kTypeBeginPrepareXID # rest @ ?enc"
    using pay' by simp
  have "12 \<le> length (rep ?b)"
    using len by simp
  with loop have "classified ?b"
    unfolding classified_def dp by blast
  then show ?thesis
    unfolding eq by simp
qed

lemma classified_step:
  assumes "classified b" and "fits x" and "assert_holds b x"
  shows "classified (snd (append b x))"
proof (cases "clears_save_points x")
  case False
  then show ?thesis
    by (rule classified_append [OF assms(1,2)])
next
  case True
  then obtain xid where x: "x = OpMarkEndPrepare xid"
    by (cases x) simp_all
  with assms classified_MarkEndPrepare [of b xid] show ?thesis
    by simp
qed

lemma classified_run_appends:
  "classified b \<Longrightarrow> list_all fits X \<Longrightarrow> asserts_hold b X \<Longrightarrow> classified (run_appends b X)"
proof (induction X arbitrary: b)
  case Nil
  then show ?case by simp
next
  case (Cons x X)
  from Cons.prems have "classified (snd (append b x))"
    by (intro classified_step) simp_all
  with Cons show ?case
    by simp
qed

lemma classified_Iterate:
  assumes "classified b"
  shows "\<exists>s. Iterate BatchContentClassifier b 0 = Some (s, content_flags b)"
proof -
  from assms obtain k where len: "12 \<le> length (rep b)"
    and k: "\<And>n f. Iterate_loop BatchContentClassifier (drop 12 (rep b)) n f
                      = Some (Exhausted (n + k) (f OR content_flags b))"
    by (auto simp: classified_def)
  from len k [of 0 0] show ?thesis
    by (simp add: Iterate_def kHeader_def)
qed

lemma class_flag_not_DEFERRED: "class_flag t AND DEFERRED = 0"
  by (cases t)
    (simp_all add: DEFERRED_def HAS_PUT_def HAS_DELETE_def HAS_SINGLE_DELETE_def HAS_MERGE_def
      HAS_BEGIN_PREPARE_def HAS_END_PREPARE_def HAS_COMMIT_def HAS_ROLLBACK_def
      HAS_DELETE_RANGE_def)

lemma classifier_loop_total:
  "\<exists>e. Iterate_loop BatchContentClassifier p n f = Some e
     \<and> (f AND DEFERRED = 0 \<longrightarrow> exit_state e AND DEFERRED = 0)"
proof (induction BatchContentClassifier p n f rule: Iterate_loop.induct)
  case (1 found h)
  then show ?case by simp
next
  case (2 c input found h)
  show ?case
  proof (cases "ReadRecordFromWriteBatch c input")
    case (Inl s)
    from Iterate_loop_return [OF classifier_Continue Inl] show ?thesis
      by simp
  next
    case (Inr x)
    obtain r rest where x: "x = (r, rest)"
      by (cases x)
    let ?m = "if is_counted (p_tag r) then 1 else 0 :: int"
    have rd: "ReadRecordFromWriteBatch c input = Inr (r, rest)"
      using Inr x by simp
    from "2.hyps" [OF classifier_Continue [symmetric] refl rd refl classifier_dispatch refl refl]
    obtain e where e: "Iterate_loop BatchContentClassifier rest (found + ?m)
          (h OR class_flag (p_tag r)) = Some e"
      and d: "(h OR class_flag (p_tag r)) AND DEFERRED = 0 \<longrightarrow> exit_state e AND DEFERRED = 0"
      by (auto simp: ok_def)
    have "(h OR class_flag (p_tag r)) AND DEFERRED = 0" if "h AND DEFERRED = 0"
      using that class_flag_not_DEFERRED [of "p_tag r"] by (simp add: bit.conj_disj_distrib2)
    with e d show ?thesis
      unfolding classifier_step [OF rd] by simp
  qed
qed

lemma classifier_Iterate_total:
  "\<exists>s f. Iterate BatchContentClassifier b 0 = Some (s, f) \<and> f AND DEFERRED = 0"
proof (cases "length (rep b) < kHeader")
  case True
  then show ?thesis
    by (simp add: Iterate_def)
next
  case False
  from classifier_loop_total [of "drop kHeader (rep b)" 0 0]
  obtain e where e: "Iterate_loop BatchContentClassifier (drop kHeader (rep b)) 0 0 = Some e"
    and d: "exit_state e AND DEFERRED = 0"
    by auto
  from False e d show ?thesis
    by (cases e) (simp_all add: Iterate_def)
qed

lemma DEFERRED_set: "DEFERRED AND DEFERRED \<noteq> 0"
  by (simp add: DEFERRED_def)

text \<open>
  Claim C7. After any sequence of appends on a new batch (the assertion of each append
  holding, strings shorter than \<open>2 ^ 32\<close>), iterating the batch into the classifier gives
  the content flags the appends have maintained. For a batch built from raw bytes, each of
  the nine queries, asked first, stores the classifier's flags in the batch and answers
  with its bit of them; the stored flags have no deferred bit, so each of the nine queries
  asked of the batch afterwards returns its bit of the stored flags and leaves the batch as
  it is.
\<close>

theorem content_flags_agree:
  assumes "asserts_hold (WriteBatch_new mb) X" and "list_all fits X"
  shows "(\<exists>s. Iterate BatchContentClassifier (run_appends (WriteBatch_new mb) X) 0
            = Some (s, content_flags (run_appends (WriteBatch_new mb) X)))
    \<and> (\<exists>s f. Iterate BatchContentClassifier (WriteBatch_from r) 0 = Some (s, f)
          \<and> ComputeContentFlags (WriteBatch_from r) = Some (f, (WriteBatch_from r)\<lparr>content_flags := f\<rparr>)
          \<and> f AND DEFERRED = 0
          \<and> ComputeContentFlags ((WriteBatch_from r)\<lparr>content_flags := f\<rparr>)
              = Some (f, (WriteBatch_from r)\<lparr>content_flags := f\<rparr>)
          \<and> HasPut (WriteBatch_from r)
              = Some (f AND HAS_PUT \<noteq> 0, (WriteBatch_from r)\<lparr>content_flags := f\<rparr>)
          \<and> HasDelete (WriteBatch_from r)
              = Some (f AND HAS_DELETE \<noteq> 0, (WriteBatch_from r)\<lparr>content_flags := f\<rparr>)
          \<and> HasSingleDelete (WriteBatch_from r)
              = Some (f AND HAS_SINGLE_DELETE \<noteq> 0, (WriteBatch_from r)\<lparr>content_flags := f\<rparr>)
          \<and> HasDeleteRange (WriteBatch_from r)
              = Some (f AND HAS_DELETE_RANGE \<noteq> 0, (WriteBatch_from r)\<lparr>content_flags := f\<rparr>)
          \<and> HasMerge (WriteBatch_from r)
              = Some (f AND HAS_MERGE \<noteq> 0, (WriteBatch_from r)\<lparr>content_flags := f\<rparr>)
          \<and> HasBeginPrepare (WriteBatch_from r)
              = Some (f AND HAS_BEGIN_PREPARE \<noteq> 0, (WriteBatch_from r)\<lparr>content_flags := f\<rparr>)
          \<and> HasEndPrepare (WriteBatch_from r)
              = Some (f AND HAS_END_PREPARE \<noteq> 0, (WriteBatch_from r)\<lparr>content_flags := f\<rparr>)
          \<and> HasCommit (WriteBatch_from r)
              = Some (f AND HAS_COMMIT \<noteq> 0, (WriteBatch_from r)\<lparr>content_flags := f\<rparr>)
          \<and> HasRollback (WriteBatch_from r)
              = Some (f AND HAS_ROLLBACK \<noteq> 0, (WriteBatch_from r)\<lparr>content_flags := f\<rparr>)
          \<and> HasPut ((WriteBatch_from r)\<lparr>content_flags := f\<rparr>)
              = Some (f AND HAS_PUT \<noteq> 0, (WriteBatch_from r)\<lparr>content_flags := f\<rparr>)
          \<and> HasDelete ((WriteBatch_from r)\<lparr>content_flags := f\<rparr>)
              = Some (f AND HAS_DELETE \<noteq> 0, (WriteBatch_from r)\<lparr>content_flags := f\<rparr>)
          \<and> HasSingleDelete ((WriteBatch_from r)\<lparr>content_flags := f\<rparr>)
              = Some (f AND HAS_SINGLE_DELETE \<noteq> 0, (WriteBatch_from r)\<lparr>content_flags := f\<rparr>)
          \<and> HasDeleteRange ((WriteBatch_from r)\<lparr>content_flags := f\<rparr>)
              = Some (f AND HAS_DELETE_RANGE \<noteq> 0, (WriteBatch_from r)\<lparr>content_flags := f\<rparr>)
          \<and> HasMerge ((WriteBatch_from r)\<lparr>content_flags := f\<rparr>)
              = Some (f AND HAS_MERGE \<noteq> 0, (WriteBatch_from r)\<lparr>content_flags := f\<rparr>)
          \<and> HasBeginPrepare ((WriteBatch_from r)\<lparr>content_flags := f\<rparr>)
              = Some (f AND HAS_BEGIN_PREPARE \<noteq> 0, (WriteBatch_from r)\<lparr>content_flags := f\<rparr>)
          \<and> HasEndPrepare ((WriteBatch_from r)\<lparr>content_flags := f\<rparr>)
              = Some (f AND HAS_END_PREPARE \<noteq> 0, (WriteBatch_from r)\<lparr>content_flags := f\<rparr>)
          \<and> HasCommit ((WriteBatch_from r)\<lparr>content_flags := f\<rparr>)
              = Some (f AND HAS_COMMIT \<noteq> 0, (WriteBatch_from r)\<lparr>content_flags := f\<rparr>)
          \<and> HasRollback ((WriteBatch_from r)\<lparr>content_flags := f\<rparr>)
              = Some (f AND HAS_ROLLBACK \<noteq> 0, (WriteBatch_from r)\<lparr>content_flags := f\<rparr>))"
proof -
  have 1: "\<exists>s. Iterate BatchContentClassifier (run_appends (WriteBatch_new mb) X) 0
            = Some (s, content_flags (run_appends (WriteBatch_new mb) X))"
    by (intro classified_Iterate classified_run_appends classified_new assms)
  from classifier_Iterate_total [of "WriteBatch_from r"]
  obtain s f where it: "Iterate BatchContentClassifier (WriteBatch_from r) 0 = Some (s, f)"
    and nd: "f AND DEFERRED = 0"
    by blast
  define b' where "b' = (WriteBatch_from r)\<lparr>content_flags := f\<rparr>"
  have cf: "content_flags (WriteBatch_from r) = DEFERRED"
    by (simp add: WriteBatch_from_def)
  have c1: "ComputeContentFlags (WriteBatch_from r) = Some (f, b')"
    using it DEFERRED_set by (simp add: ComputeContentFlags_def Let_def cf b'_def)
  have c2: "ComputeContentFlags b' = Some (f, b')"
    using nd by (simp add: ComputeContentFlags_def Let_def b'_def)
  note q = HasPut_def HasDelete_def HasSingleDelete_def HasDeleteRange_def HasMerge_def
    HasBeginPrepare_def HasEndPrepare_def HasCommit_def HasRollback_def
  have h1: "HasPut (WriteBatch_from r) = Some (f AND HAS_PUT \<noteq> 0, b')"
    "HasDelete (WriteBatch_from r) = Some (f AND HAS_DELETE \<noteq> 0, b')"
    "HasSingleDelete (WriteBatch_from r) = Some (f AND HAS_SINGLE_DELETE \<noteq> 0, b')"
    "HasDeleteRange (WriteBatch_from r) = Some (f AND HAS_DELETE_RANGE \<noteq> 0, b')"
    "HasMerge (WriteBatch_from r) = Some (f AND HAS_MERGE \<noteq> 0, b')"
    "HasBeginPrepare (WriteBatch_from r) = Some (f AND HAS_BEGIN_PREPARE \<noteq> 0, b')"
    "HasEndPrepare (WriteBatch_from r) = Some (f AND HAS_END_PREPARE \<noteq> 0, b')"
    "HasCommit (WriteBatch_from r) = Some (f AND HAS_COMMIT \<noteq> 0, b')"
    "HasRollback (WriteBatch_from r) = Some (f AND HAS_ROLLBACK \<noteq> 0, b')"
    unfolding q c1 by simp_all
  have h2: "HasPut b' = Some (f AND HAS_PUT \<noteq> 0, b')"
    "HasDelete b' = Some (f AND HAS_DELETE \<noteq> 0, b')"
    "HasSingleDelete b' = Some (f AND HAS_SINGLE_DELETE \<noteq> 0, b')"
    "HasDeleteRange b' = Some (f AND HAS_DELETE_RANGE \<noteq> 0, b')"
    "HasMerge b' = Some (f AND HAS_MERGE \<noteq> 0, b')"
    "HasBeginPrepare b' = Some (f AND HAS_BEGIN_PREPARE \<noteq> 0, b')"
    "HasEndPrepare b' = Some (f AND HAS_END_PREPARE \<noteq> 0, b')"
    "HasCommit b' = Some (f AND HAS_COMMIT \<noteq> 0, b')"
    "HasRollback b' = Some (f AND HAS_ROLLBACK \<noteq> 0, b')"
    unfolding q c2 by simp_all
  have 2: "\<exists>s. Iterate BatchContentClassifier (WriteBatch_from r) 0 = Some (s, f)"
    using it by blast
  show ?thesis
    apply (rule conjI [OF 1])
    apply (rule exI [of _ s], rule exI [of _ f])
    unfolding b'_def [symmetric]
    apply (intro conjI it c1 nd c2 h1 h2)
    done
qed

theorem content_flags_agree_witness:
  "asserts_hold (WriteBatch_new 0)
     [OpInsertNoop, OpPut 0 [0x6B] [0x76], OpDelete 7 [0x61], OpMarkEndPrepare [0x74]]
   \<and> list_all fits [OpInsertNoop, OpPut 0 [0x6B] [0x76], OpDelete 7 [0x61], OpMarkEndPrepare [0x74]]
   \<and> content_flags (run_appends (WriteBatch_new 0)
        [OpInsertNoop, OpPut 0 [0x6B] [0x76], OpDelete 7 [0x61], OpMarkEndPrepare [0x74]])
       = HAS_PUT OR HAS_DELETE OR HAS_BEGIN_PREPARE OR HAS_END_PREPARE
   \<and> (\<exists>s. Iterate BatchContentClassifier (run_appends (WriteBatch_new 0)
          [OpInsertNoop, OpPut 0 [0x6B] [0x76], OpDelete 7 [0x61], OpMarkEndPrepare [0x74]]) 0
        = Some (s, HAS_PUT OR HAS_DELETE OR HAS_BEGIN_PREPARE OR HAS_END_PREPARE))
   \<and> (\<exists>b'. HasPut (WriteBatch_from [0, 0, 0, 0, 0, 0, 0, 0, 2, 0, 0, 0, 1, 1, 0x61, 1, 0x31,
                 1, 1, 0x62, 1, 0x32]) = Some (True, b')
          \<and> content_flags b' = HAS_PUT
          \<and> HasDelete b' = Some (False, b')
          \<and> HasPut b' = Some (True, b'))
   \<and> (\<exists>b'. HasMerge (WriteBatch_from [0, 0, 0, 0, 0, 0, 0, 0, 2, 0, 0, 0, 1, 1, 0x61, 1, 0x31,
                 1, 1, 0x62, 1, 0x32]) = Some (False, b')
          \<and> content_flags b' = HAS_PUT
          \<and> HasRollback b' = Some (False, b'))"
proof -
  let ?X = "[OpInsertNoop, OpPut 0 [0x6B] [0x76], OpDelete 7 [0x61], OpMarkEndPrepare [0x74]]"
  let ?r = "[0, 0, 0, 0, 0, 0, 0, 0, 2, 0, 0, 0, 1, 1, 0x61, 1, 0x31, 1, 1, 0x62, 1, 0x32] :: bytes"
  have a: "asserts_hold (WriteBatch_new 0) ?X"
    by code_simp
  have f: "list_all fits ?X"
    by simp
  have c: "content_flags (run_appends (WriteBatch_new 0) ?X)
      = HAS_PUT OR HAS_DELETE OR HAS_BEGIN_PREPARE OR HAS_END_PREPARE"
    by code_simp
  have i: "Iterate BatchContentClassifier (WriteBatch_from ?r) 0 = Some (OK, HAS_PUT)"
    by code_simp
  have p: "HAS_PUT AND HAS_PUT \<noteq> 0" "\<not> HAS_PUT AND HAS_DELETE \<noteq> 0"
    "\<not> HAS_PUT AND HAS_MERGE \<noteq> 0" "\<not> HAS_PUT AND HAS_ROLLBACK \<noteq> 0"
    by (simp_all add: HAS_PUT_def HAS_DELETE_def HAS_MERGE_def HAS_ROLLBACK_def)
  let ?b' = "(WriteBatch_from ?r)\<lparr>content_flags := HAS_PUT\<rparr>"
  from content_flags_agree [OF a f, of ?r]
  have 1: "\<exists>s. Iterate BatchContentClassifier (run_appends (WriteBatch_new 0) ?X) 0
            = Some (s, content_flags (run_appends (WriteBatch_new 0) ?X))"
    and 2: "HasPut (WriteBatch_from ?r) = Some (HAS_PUT AND HAS_PUT \<noteq> 0, ?b')"
      "HasDelete ?b' = Some (HAS_PUT AND HAS_DELETE \<noteq> 0, ?b')"
      "HasPut ?b' = Some (HAS_PUT AND HAS_PUT \<noteq> 0, ?b')"
      "HasMerge (WriteBatch_from ?r) = Some (HAS_PUT AND HAS_MERGE \<noteq> 0, ?b')"
      "HasRollback ?b' = Some (HAS_PUT AND HAS_ROLLBACK \<noteq> 0, ?b')"
    unfolding i by (blast+)
  have cb: "content_flags ?b' = HAS_PUT"
    by simp
  from 2 p have 3: "HasPut (WriteBatch_from ?r) = Some (True, ?b')"
    "HasDelete ?b' = Some (False, ?b')" "HasPut ?b' = Some (True, ?b')"
    "HasMerge (WriteBatch_from ?r) = Some (False, ?b')" "HasRollback ?b' = Some (False, ?b')"
    by simp_all
  from 1 have 4: "\<exists>s. Iterate BatchContentClassifier (run_appends (WriteBatch_new 0) ?X) 0
        = Some (s, HAS_PUT OR HAS_DELETE OR HAS_BEGIN_PREPARE OR HAS_END_PREPARE)"
    unfolding c .
  from a f c 4 3 cb show ?thesis
    by blast
qed

section \<open>The memtable inserter: sequence numbers\<close>

lemma set_has_valid_writes_fields [simp]:
  "sequence (set_has_valid_writes st) = sequence st"
  "log_number_ref (set_has_valid_writes st) = log_number_ref st"
  "post_info_created (set_has_valid_writes st) = post_info_created st"
  "rebuilding_trx (set_has_valid_writes st) = rebuilding_trx st"
  "recovered_transactions (set_has_valid_writes st) = recovered_transactions st"
  "world (set_has_valid_writes st) = world st"
  by (simp_all add: set_has_valid_writes_def split: option.splits)

lemma SeekToColumnFamily_fields:
  assumes "SeekToColumnFamily E cfg cf st = (found, s, st')"
  shows "sequence st' = sequence st" and "rebuilding_trx st' = rebuilding_trx st"
    and "recovered_transactions st' = recovered_transactions st"
    and "log_number_ref st' = log_number_ref st"
    and "\<And>m. s \<noteq> NotSupported m"
  using assms
  by (auto simp: SeekToColumnFamily_def Let_def split: prod.splits if_splits)

lemma DeleteImpl_fields:
  "\<exists>st'. DeleteImpl E cfg k v t st = Some (OK, st') \<and> sequence st' = sequence st + 1
     \<and> rebuilding_trx st' = rebuilding_trx st
     \<and> recovered_transactions st' = recovered_transactions st
     \<and> log_number_ref st' = log_number_ref st"
  by (simp add: DeleteImpl_def Let_def)

lemma PutCF_advances:
  assumes "rebuilding_trx st = None"
  shows "\<exists>r. MemTableInserter_PutCF E cfg cf k v st = Some r \<and> advanced True st r"
proof -
  obtain found s st1 where sk: "SeekToColumnFamily E cfg cf st = (found, s, st1)"
    by (cases "SeekToColumnFamily E cfg cf st")
  from SeekToColumnFamily_fields [OF sk] assms show ?thesis
    by (cases found) (simp_all add: MemTableInserter_PutCF_def sk Let_def advanced_def)
qed

lemma DeleteCF_advances:
  assumes "rebuilding_trx st = None"
  shows "\<exists>r. MemTableInserter_DeleteCF E cfg cf k st = Some r \<and> advanced True st r"
proof -
  obtain found s st1 where sk: "SeekToColumnFamily E cfg cf st = (found, s, st1)"
    by (cases "SeekToColumnFamily E cfg cf st")
  from SeekToColumnFamily_fields [OF sk] assms DeleteImpl_fields [of E cfg k "[]" kTypeDeletion st1]
  show ?thesis
    by (cases found) (auto simp: MemTableInserter_DeleteCF_def sk advanced_def)
qed

lemma SingleDeleteCF_advances:
  assumes "rebuilding_trx st = None"
  shows "\<exists>r. MemTableInserter_SingleDeleteCF E cfg cf k st = Some r \<and> advanced True st r"
proof -
  obtain found s st1 where sk: "SeekToColumnFamily E cfg cf st = (found, s, st1)"
    by (cases "SeekToColumnFamily E cfg cf st")
  from SeekToColumnFamily_fields [OF sk] assms
    DeleteImpl_fields [of E cfg k "[]" kTypeSingleDeletion st1]
  show ?thesis
    by (cases found) (auto simp: MemTableInserter_SingleDeleteCF_def sk advanced_def)
qed

lemma DeleteRangeCF_advances:
  assumes "rebuilding_trx st = None"
  shows "\<exists>r. MemTableInserter_DeleteRangeCF E cfg cf k v st = Some r \<and> advanced False st r"
proof -
  obtain found s st1 where sk: "SeekToColumnFamily E cfg cf st = (found, s, st1)"
    by (cases "SeekToColumnFamily E cfg cf st")
  from SeekToColumnFamily_fields [OF sk] assms
    DeleteImpl_fields [of E cfg k v kTypeRangeDeletion st1]
  show ?thesis
    by (cases found) (auto simp: MemTableInserter_DeleteRangeCF_def sk advanced_def)
qed

lemma MergeCF_advances:
  assumes "rebuilding_trx st = None"
  shows "\<exists>r. MemTableInserter_MergeCF E cfg cf k v st = Some r \<and> advanced True st r"
proof -
  obtain found s st1 where sk: "SeekToColumnFamily E cfg cf st = (found, s, st1)"
    by (cases "SeekToColumnFamily E cfg cf st")
  from SeekToColumnFamily_fields [OF sk] assms show ?thesis
    by (cases found) (simp_all add: MemTableInserter_MergeCF_def sk Let_def advanced_def)
qed

lemma Inserter_Handler: "\<exists>it. Inserter E cfg d = MemTableInserter_Handler E cfg it"
  by (cases d) auto

lemma Handler_fields [simp]:
  "PutCF (MemTableInserter_Handler E cfg it) = MemTableInserter_PutCF E cfg"
  "DeleteCF (MemTableInserter_Handler E cfg it) = MemTableInserter_DeleteCF E cfg"
  "SingleDeleteCF (MemTableInserter_Handler E cfg it) = MemTableInserter_SingleDeleteCF E cfg"
  "DeleteRangeCF (MemTableInserter_Handler E cfg it) = MemTableInserter_DeleteRangeCF E cfg"
  "MergeCF (MemTableInserter_Handler E cfg it) = MemTableInserter_MergeCF E cfg"
  "LogData (MemTableInserter_Handler E cfg it) = (\<lambda>blob st. st)"
  "MarkBeginPrepare (MemTableInserter_Handler E cfg it) = MemTableInserter_MarkBeginPrepare E cfg"
  "MarkEndPrepare (MemTableInserter_Handler E cfg it) = MemTableInserter_MarkEndPrepare cfg"
  "MarkCommit (MemTableInserter_Handler E cfg it) = MemTableInserter_MarkCommit it cfg"
  "MarkRollback (MemTableInserter_Handler E cfg it) = MemTableInserter_MarkRollback cfg"
  "Continue (MemTableInserter_Handler E cfg it) = (\<lambda>st. (True, st))"
  by (simp_all add: MemTableInserter_Handler_def)

lemma Inserter_Continue: "Continue (Inserter E cfg d) st = (True, st)"
  using Inserter_Handler [of E cfg d] by auto

lemma counted_call_advanced:
  assumes "\<exists>r. x = Some r \<and> advanced strict st r"
  shows "\<exists>s m st'. counted_call x = Some (s, m, st') \<and> rebuilding_trx st' = None \<and> (s = OK \<longrightarrow> sequence st' = sequence st + word_of_int m)
     \<and> (\<forall>x. recovered_transactions st x = None \<longrightarrow> recovered_transactions st' x = None)"
  using assms by (auto simp: counted_call_def advanced_def)

lemma plain_dispatch:
  assumes "rebuilding_trx st = None"
    and "recovering_log_number cfg = 0
      \<or> p_tag r \<noteq> kTypeBeginPrepareXID \<and> p_tag r \<noteq> kTypeEndPrepareXID
        \<and> \<not> (p_tag r = kTypeCommitXID \<and> recovered_transactions st (p_xid r) \<noteq> None)"
  shows "\<exists>s m st'. dispatch (Inserter E cfg d) r st = Some (s, m, st')
     \<and> rebuilding_trx st' = None \<and> (s = OK \<longrightarrow> sequence st' = sequence st + word_of_int m)
     \<and> (\<forall>x. recovered_transactions st x = None \<longrightarrow> recovered_transactions st' x = None)"
proof -
  obtain it where H: "Inserter E cfg d = MemTableInserter_Handler E cfg it"
    using Inserter_Handler by blast
  note adv = counted_call_advanced [OF PutCF_advances [OF assms(1)]]
    counted_call_advanced [OF DeleteCF_advances [OF assms(1)]]
    counted_call_advanced [OF SingleDeleteCF_advances [OF assms(1)]]
    counted_call_advanced [OF DeleteRangeCF_advances [OF assms(1)]]
    counted_call_advanced [OF MergeCF_advances [OF assms(1)]]
  have "\<exists>s m st'. dispatch_tag (MemTableInserter_Handler E cfg it) (p_tag r) r st = Some (s, m, st')
     \<and> rebuilding_trx st' = None \<and> (s = OK \<longrightarrow> sequence st' = sequence st + word_of_int m)
     \<and> (\<forall>x. recovered_transactions st x = None \<longrightarrow> recovered_transactions st' x = None)"
  proof (cases "p_tag r")
    case kTypeValue
    show ?thesis
      unfolding kTypeValue dispatch_tag.simps Handler_fields by (rule adv(1))
  next
    case kTypeColumnFamilyValue
    show ?thesis
      unfolding kTypeColumnFamilyValue dispatch_tag.simps Handler_fields by (rule adv(1))
  next
    case kTypeDeletion
    show ?thesis
      unfolding kTypeDeletion dispatch_tag.simps Handler_fields by (rule adv(2))
  next
    case kTypeColumnFamilyDeletion
    show ?thesis
      unfolding kTypeColumnFamilyDeletion dispatch_tag.simps Handler_fields by (rule adv(2))
  next
    case kTypeSingleDeletion
    show ?thesis
      unfolding kTypeSingleDeletion dispatch_tag.simps Handler_fields by (rule adv(3))
  next
    case kTypeColumnFamilySingleDeletion
    show ?thesis
      unfolding kTypeColumnFamilySingleDeletion dispatch_tag.simps Handler_fields by (rule adv(3))
  next
    case kTypeRangeDeletion
    show ?thesis
      unfolding kTypeRangeDeletion dispatch_tag.simps Handler_fields by (rule adv(4))
  next
    case kTypeColumnFamilyRangeDeletion
    show ?thesis
      unfolding kTypeColumnFamilyRangeDeletion dispatch_tag.simps Handler_fields by (rule adv(4))
  next
    case kTypeMerge
    show ?thesis
      unfolding kTypeMerge dispatch_tag.simps Handler_fields by (rule adv(5))
  next
    case kTypeColumnFamilyMerge
    show ?thesis
      unfolding kTypeColumnFamilyMerge dispatch_tag.simps Handler_fields by (rule adv(5))
  next
    case kTypeLogData
    with assms show ?thesis
      by (auto simp: marker_call_def MemTableInserter_MarkBeginPrepare_def
          MemTableInserter_MarkEndPrepare_def MemTableInserter_MarkCommit_def
          MemTableInserter_MarkRollback_def GetRecoveredTransaction_def
          DeleteRecoveredTransaction_def split: option.splits)
  next
    case kTypeBeginPrepareXID
    with assms show ?thesis
      by (auto simp: marker_call_def MemTableInserter_MarkBeginPrepare_def
          MemTableInserter_MarkEndPrepare_def MemTableInserter_MarkCommit_def
          MemTableInserter_MarkRollback_def GetRecoveredTransaction_def
          DeleteRecoveredTransaction_def split: option.splits)
  next
    case kTypeEndPrepareXID
    with assms show ?thesis
      by (auto simp: marker_call_def MemTableInserter_MarkBeginPrepare_def
          MemTableInserter_MarkEndPrepare_def MemTableInserter_MarkCommit_def
          MemTableInserter_MarkRollback_def GetRecoveredTransaction_def
          DeleteRecoveredTransaction_def split: option.splits)
  next
    case kTypeCommitXID
    with assms show ?thesis
      by (auto simp: marker_call_def MemTableInserter_MarkBeginPrepare_def
          MemTableInserter_MarkEndPrepare_def MemTableInserter_MarkCommit_def
          MemTableInserter_MarkRollback_def GetRecoveredTransaction_def
          DeleteRecoveredTransaction_def split: option.splits)
  next
    case kTypeRollbackXID
    with assms show ?thesis
      by (auto simp: marker_call_def MemTableInserter_MarkBeginPrepare_def
          MemTableInserter_MarkEndPrepare_def MemTableInserter_MarkCommit_def
          MemTableInserter_MarkRollback_def GetRecoveredTransaction_def
          DeleteRecoveredTransaction_def split: option.splits)
  next
    case kTypeNoop
    with assms show ?thesis
      by (auto simp: marker_call_def MemTableInserter_MarkBeginPrepare_def
          MemTableInserter_MarkEndPrepare_def MemTableInserter_MarkCommit_def
          MemTableInserter_MarkRollback_def GetRecoveredTransaction_def
          DeleteRecoveredTransaction_def split: option.splits)
  qed
  then show ?thesis
    unfolding H dispatch_def .
qed

lemma read_fields_Inl: "read_fields t p = Inl s \<Longrightarrow> s \<noteq> OK"
  by (cases t)
    (auto simp: get_cf_def get_key_value_def get_key_def get_xid_def split: option.splits)

lemma Iterate_loop_not_OK:
  "Iterate_loop H p n h = Some e \<Longrightarrow> e \<noteq> Return OK h' \<and> e \<noteq> Failed OK n' h'"
proof (induction H p n h rule: Iterate_loop.induct)
  case (1 H found h)
  then show ?case by auto
next
  case (2 H c input found h)
  show ?case
  proof (cases rule: Iterate_loop_cases [where H = H and h = h and c = c and input = input])
    case (stop h1)
    with "2.prems" show ?thesis
      by (auto simp: Iterate_loop_stop)
  next
    case (return h1 s)
    then have "s \<noteq> OK"
      by (auto simp: ReadRecordFromWriteBatch_def split: option.splits dest: read_fields_Inl)
    with return "2.prems" show ?thesis
      by (auto simp: Iterate_loop_return)
  next
    case (diverge h1 r rest)
    with "2.prems" show ?thesis
      by (simp add: Iterate_loop_diverge)
  next
    case (step h1 r rest s m h2)
    show ?thesis
    proof (cases "ok s")
      case True
      with "2.prems" have "Iterate_loop H rest (found + m) h2 = Some e"
        unfolding Iterate_loop_step [OF step] by simp
      from "2.IH" [OF step(1) [symmetric] refl step(2) refl step(3) refl refl True this]
      show ?thesis .
    next
      case False
      with "2.prems" show ?thesis
        unfolding Iterate_loop_step [OF step] by (auto simp: ok_def)
    qed
  qed
qed

lemma plain_loop:
  "rebuilding_trx st = None \<Longrightarrow>
   recovering_log_number cfg = 0 \<or> plain_payload known p \<Longrightarrow>
   \<forall>x. \<not> known x \<longrightarrow> recovered_transactions st x = None \<Longrightarrow>
    \<exists>e. Iterate_loop (Inserter E cfg d) p n st = Some e
      \<and> (\<forall>n' st'. e = Exhausted n' st' \<longrightarrow> sequence st' = sequence st + word_of_int (n' - n))
      \<and> (\<forall>n' st'. e \<noteq> Stopped n' st')"
proof (induction "Inserter E cfg d" p n st rule: Iterate_loop.induct)
  case (1 found h)
  then show ?case by simp
next
  case (2 c input found h)
  show ?case
  proof (cases "ReadRecordFromWriteBatch c input")
    case (Inl s)
    from Iterate_loop_return [OF Inserter_Continue [of E cfg d h] Inl] show ?thesis
      by simp
  next
    case (Inr x)
    obtain r rest where rd: "ReadRecordFromWriteBatch c input = Inr (r, rest)"
      using Inr by (cases x) simp
    from "2.prems"(2) rd have pr: "recovering_log_number cfg = 0 \<or> plain_payload known rest"
      by auto
    from "2.prems"(2,3) rd have al: "recovering_log_number cfg = 0
      \<or> p_tag r \<noteq> kTypeBeginPrepareXID \<and> p_tag r \<noteq> kTypeEndPrepareXID
        \<and> \<not> (p_tag r = kTypeCommitXID \<and> recovered_transactions h (p_xid r) \<noteq> None)"
      by auto
    from plain_dispatch [OF "2.prems"(1) al, of E d]
    obtain s m h' where d: "dispatch (Inserter E cfg d) r h = Some (s, m, h')"
      and rb: "rebuilding_trx h' = None"
      and sq: "s = OK \<longrightarrow> sequence h' = sequence h + word_of_int m"
      and tb: "\<forall>x. recovered_transactions h x = None \<longrightarrow> recovered_transactions h' x = None"
      by blast
    from tb "2.prems"(3) have kn: "\<forall>x. \<not> known x \<longrightarrow> recovered_transactions h' x = None"
      by blast
    note step = Iterate_loop_step [OF Inserter_Continue [of E cfg d h] rd d, where found = found]
    show ?thesis
    proof (cases "ok s")
      case False
      with step show ?thesis by simp
    next
      case True
      from "2.hyps" [OF Inserter_Continue [of E cfg d h, symmetric] refl rd refl d refl refl True
          rb pr kn]
      obtain e where e: "Iterate_loop (Inserter E cfg d) rest (found + m) h' = Some e"
        and ex: "\<And>n' st'. e = Exhausted n' st' \<Longrightarrow>
            sequence st' = sequence h' + word_of_int (n' - (found + m))"
        and ns: "\<And>n' st'. e \<noteq> Stopped n' st'"
        by blast
      have key: "sequence st' = sequence h + word_of_int (n' - found)" if "e = Exhausted n' st'"
        for n' st'
      proof -
        have "sequence st' = sequence h + (word_of_int m + word_of_int (n' - (found + m)))"
          using ex [OF that] sq True by (simp add: ok_def add.assoc)
        also have "(word_of_int m + word_of_int (n' - (found + m)) :: 64 word)
            = word_of_int (m + (n' - (found + m)))"
          by (simp only: of_int_add)
        also have "m + (n' - (found + m)) = n' - found"
          by simp
        finally show ?thesis .
      qed
      have "Iterate_loop (Inserter E cfg d) (c # input) found h = Some e"
        using step True e by simp
      with key ns show ?thesis
        by blast
    qed
  qed
qed

lemma plain_Iterate:
  assumes "rebuilding_trx st = None"
    and "recovering_log_number cfg = 0
      \<or> plain_payload (\<lambda>x. recovered_transactions st x \<noteq> None) (drop kHeader (rep b))"
  shows "\<exists>s st'. Iterate (Inserter E cfg d) b st = Some (s, st')
     \<and> (s = OK \<longrightarrow> sequence st' = sequence st + word_of_int (Count b))"
proof (cases "length (rep b) < kHeader")
  case True
  then show ?thesis
    by (simp add: Iterate_def)
next
  case False
  have "\<forall>x. \<not> recovered_transactions st x \<noteq> None \<longrightarrow> recovered_transactions st x = None"
    by blast
  from plain_loop [OF assms this, where E = E and d = d and n = 0]
  obtain e where e: "Iterate_loop (Inserter E cfg d) (drop kHeader (rep b)) 0 st = Some e"
    and ex: "\<And>n' st'. e = Exhausted n' st' \<Longrightarrow> sequence st' = sequence st + word_of_int n'"
    and ns: "\<And>n' st'. e \<noteq> Stopped n' st'"
    by auto
  show ?thesis
  proof (cases e)
    case (Exhausted n' st')
    from False e Exhausted have it: "Iterate (Inserter E cfg d) b st =
        Some (if n' \<noteq> Count b then Corruption ''WriteBatch has wrong count'' else OK, st')"
      by (simp add: Iterate_def)
    show ?thesis
    proof (cases "n' = Count b")
      case True
      with it ex [OF Exhausted] show ?thesis by simp
    next
      case False
      with it show ?thesis by simp
    qed
  next
    case (Stopped n' st')
    with ns [of n' st'] show ?thesis by simp
  next
    case (Return s st')
    with Iterate_loop_not_OK [OF e, of st'] have "s \<noteq> OK"
      by auto
    moreover from False e Return have "Iterate (Inserter E cfg d) b st = Some (s, st')"
      by (simp add: Iterate_def)
    ultimately show ?thesis by simp
  next
    case (Failed s n' st')
    with Iterate_loop_not_OK [OF e, of st' n'] have "s \<noteq> OK"
      by auto
    moreover from False e Failed have "Iterate (Inserter E cfg d) b st = Some (s, st')"
      by (simp add: Iterate_def)
    ultimately show ?thesis by simp
  qed
qed

lemma DeleteRangeCF_not_supported:
  assumes "rebuilding_trx st = None"
    and "MemTableInserter_DeleteRangeCF E cfg cf k v st = Some (NotSupported m, st')"
  shows "sequence st' = sequence st"
proof -
  obtain found s st1 where sk: "SeekToColumnFamily E cfg cf st = (found, s, st1)"
    by (cases "SeekToColumnFamily E cfg cf st")
  from SeekToColumnFamily_fields [OF sk] assms
    DeleteImpl_fields [of E cfg k v kTypeRangeDeletion st1]
  show ?thesis
    by (cases found) (auto simp: MemTableInserter_DeleteRangeCF_def sk split: if_splits)
qed

lemma rebuilding_callbacks:
  assumes "rebuilding_trx st = Some t"
  shows "MemTableInserter_PutCF E cfg cf k v st
           = Some (OK, st\<lparr>rebuilding_trx := Some (snd (append t (OpPut cf k v)))\<rparr>)"
    and "MemTableInserter_DeleteCF E cfg cf k st
           = Some (OK, st\<lparr>rebuilding_trx := Some (snd (append t (OpDelete cf k)))\<rparr>)"
    and "MemTableInserter_SingleDeleteCF E cfg cf k st
           = Some (OK, st\<lparr>rebuilding_trx := Some (snd (append t (OpSingleDelete cf k)))\<rparr>)"
    and "MemTableInserter_DeleteRangeCF E cfg cf k v st
           = Some (OK, st\<lparr>rebuilding_trx := Some (snd (append t (OpDeleteRange cf k v)))\<rparr>)"
    and "MemTableInserter_MergeCF E cfg cf k v st
           = Some (OK, st\<lparr>rebuilding_trx := Some (snd (append t (OpMerge cf k v)))\<rparr>)"
  using assms
  by (simp_all add: MemTableInserter_PutCF_def MemTableInserter_DeleteCF_def
      MemTableInserter_SingleDeleteCF_def MemTableInserter_DeleteRangeCF_def
      MemTableInserter_MergeCF_def)

lemma advanced_strict:
  "\<exists>r. x = Some r \<and> advanced True st r \<Longrightarrow> \<exists>s st'. x = Some (s, st') \<and> sequence st' = sequence st + 1"
  by (auto simp: advanced_def)

lemma advanced_lenient:
  "\<exists>r. x = Some r \<and> advanced False st r \<Longrightarrow>
   \<exists>s st'. x = Some (s, st') \<and> ((\<forall>m. s \<noteq> NotSupported m) \<longrightarrow> sequence st' = sequence st + 1)"
  by (auto simp: advanced_def)

text \<open>
  Claim C1, as amended. Outside a prepared section of recovery (\<open>rebuilding_trx_\<close> null),
  \<open>PutCF\<close>, \<open>DeleteCF\<close>, \<open>SingleDeleteCF\<close> and \<open>MergeCF\<close> return with the
  sequence number one higher, whatever the seek of the column family says and whatever the
  memtable does; \<open>DeleteRangeCF\<close> does so whenever its status is not
  \<open>NotSupported\<close>, and returns with the sequence number unchanged when it is. While a
  transaction is rebuilt (\<open>rebuilding_trx_\<close> not null) each of the five returns OK with
  the sequence number and the collaborators unchanged: the record goes to the rebuilt batch
  only. Consequently, for an inserter that is not rebuilding a transaction, in an ordinary
  write (\<open>recovering_log_number_ = 0\<close>) on any batch, and in recovery on any batch without
  begin-prepare and end-prepare markers and without the commit marker of a transaction in
  the table of recovered transactions, \<open>Iterate\<close> returns, and when it returns OK the
  inserter started at \<open>seq0\<close> finishes at \<open>seq0\<close> plus the count of the batch, which is
  then the number of its counted records.
\<close>

theorem sequence_advances:
  "(rebuilding_trx st = None \<longrightarrow>
      (\<exists>s st'. MemTableInserter_PutCF E cfg cf k v st = Some (s, st')
          \<and> sequence st' = sequence st + 1)
    \<and> (\<exists>s st'. MemTableInserter_DeleteCF E cfg cf k st = Some (s, st')
          \<and> sequence st' = sequence st + 1)
    \<and> (\<exists>s st'. MemTableInserter_SingleDeleteCF E cfg cf k st = Some (s, st')
          \<and> sequence st' = sequence st + 1)
    \<and> (\<exists>s st'. MemTableInserter_MergeCF E cfg cf k v st = Some (s, st')
          \<and> sequence st' = sequence st + 1)
    \<and> (\<exists>s st'. MemTableInserter_DeleteRangeCF E cfg cf k v st = Some (s, st')
          \<and> ((\<forall>m. s \<noteq> NotSupported m) \<longrightarrow> sequence st' = sequence st + 1)
          \<and> ((\<exists>m. s = NotSupported m) \<longrightarrow> sequence st' = sequence st)))
   \<and> (rebuilding_trx st \<noteq> None \<longrightarrow>
      (\<exists>st'. MemTableInserter_PutCF E cfg cf k v st = Some (OK, st')
          \<and> sequence st' = sequence st \<and> world st' = world st)
    \<and> (\<exists>st'. MemTableInserter_DeleteCF E cfg cf k st = Some (OK, st')
          \<and> sequence st' = sequence st \<and> world st' = world st)
    \<and> (\<exists>st'. MemTableInserter_SingleDeleteCF E cfg cf k st = Some (OK, st')
          \<and> sequence st' = sequence st \<and> world st' = world st)
    \<and> (\<exists>st'. MemTableInserter_MergeCF E cfg cf k v st = Some (OK, st')
          \<and> sequence st' = sequence st \<and> world st' = world st)
    \<and> (\<exists>st'. MemTableInserter_DeleteRangeCF E cfg cf k v st = Some (OK, st')
          \<and> sequence st' = sequence st \<and> world st' = world st))
   \<and> (rebuilding_trx st = None
        \<and> (recovering_log_number cfg = 0
            \<or> plain_payload (\<lambda>x. recovered_transactions st x \<noteq> None) (drop kHeader (rep b)))
      \<longrightarrow>
      (\<exists>s st'. Iterate (Inserter E cfg d) b st = Some (s, st')
          \<and> (s = OK \<longrightarrow> sequence st' = sequence st + word_of_int (Count b))))"
proof (intro conjI impI)
  assume n: "rebuilding_trx st = None"
  show "\<exists>s st'. MemTableInserter_PutCF E cfg cf k v st = Some (s, st')
          \<and> sequence st' = sequence st + 1"
    by (rule advanced_strict [OF PutCF_advances [OF n]])
  show "\<exists>s st'. MemTableInserter_DeleteCF E cfg cf k st = Some (s, st')
          \<and> sequence st' = sequence st + 1"
    by (rule advanced_strict [OF DeleteCF_advances [OF n]])
  show "\<exists>s st'. MemTableInserter_SingleDeleteCF E cfg cf k st = Some (s, st')
          \<and> sequence st' = sequence st + 1"
    by (rule advanced_strict [OF SingleDeleteCF_advances [OF n]])
  show "\<exists>s st'. MemTableInserter_MergeCF E cfg cf k v st = Some (s, st')
          \<and> sequence st' = sequence st + 1"
    by (rule advanced_strict [OF MergeCF_advances [OF n]])
  from advanced_lenient [OF DeleteRangeCF_advances [OF n]]
  obtain s st' where dr: "MemTableInserter_DeleteRangeCF E cfg cf k v st = Some (s, st')"
    and le: "(\<forall>m. s \<noteq> NotSupported m) \<longrightarrow> sequence st' = sequence st + 1"
    by blast
  have "(\<exists>m. s = NotSupported m) \<longrightarrow> sequence st' = sequence st"
    using DeleteRangeCF_not_supported [OF n] dr by blast
  with dr le
  show "\<exists>s st'. MemTableInserter_DeleteRangeCF E cfg cf k v st = Some (s, st')
          \<and> ((\<forall>m. s \<noteq> NotSupported m) \<longrightarrow> sequence st' = sequence st + 1)
          \<and> ((\<exists>m. s = NotSupported m) \<longrightarrow> sequence st' = sequence st)"
    by blast
next
  assume "rebuilding_trx st \<noteq> None"
  then obtain t where t: "rebuilding_trx st = Some t"
    by auto
  show "\<exists>st'. MemTableInserter_PutCF E cfg cf k v st = Some (OK, st')
          \<and> sequence st' = sequence st \<and> world st' = world st"
    unfolding rebuilding_callbacks [OF t] by simp
  show "\<exists>st'. MemTableInserter_DeleteCF E cfg cf k st = Some (OK, st')
          \<and> sequence st' = sequence st \<and> world st' = world st"
    unfolding rebuilding_callbacks [OF t] by simp
  show "\<exists>st'. MemTableInserter_SingleDeleteCF E cfg cf k st = Some (OK, st')
          \<and> sequence st' = sequence st \<and> world st' = world st"
    unfolding rebuilding_callbacks [OF t] by simp
  show "\<exists>st'. MemTableInserter_MergeCF E cfg cf k v st = Some (OK, st')
          \<and> sequence st' = sequence st \<and> world st' = world st"
    unfolding rebuilding_callbacks [OF t] by simp
  show "\<exists>st'. MemTableInserter_DeleteRangeCF E cfg cf k v st = Some (OK, st')
          \<and> sequence st' = sequence st \<and> world st' = world st"
    unfolding rebuilding_callbacks [OF t] by simp
next
  assume "rebuilding_trx st = None
        \<and> (recovering_log_number cfg = 0
            \<or> plain_payload (\<lambda>x. recovered_transactions st x \<noteq> None) (drop kHeader (rep b)))"
  then show "\<exists>s st'. Iterate (Inserter E cfg d) b st = Some (s, st')
          \<and> (s = OK \<longrightarrow> sequence st' = sequence st + word_of_int (Count b))"
    by (intro plain_Iterate) simp_all
qed

theorem sequence_advances_witness:
  "rebuilding_trx (inserter_at 5) = None \<and> recovering_log_number normal_write = 0
   \<and> (\<exists>s st'. MemTableInserter_PutCF PlainMemtable normal_write 9 [0x6B] [0x76] (inserter_at 5)
          = Some (s, st') \<and> sequence st' = 6)
   \<and> (\<exists>st'. Iterate (Inserter PlainMemtable normal_write 0)
          (run_appends (WriteBatch_new 0) [OpPut 0 [0x6B] [0x76], OpDelete 9 [0x61]]) (inserter_at 5)
          = Some (OK, st') \<and> sequence st' = 7)
   \<and> rebuilding_trx ((inserter_at 5)\<lparr>rebuilding_trx := Some (WriteBatch_new 0)\<rparr>) \<noteq> None
   \<and> (\<exists>st'. MemTableInserter_PutCF PlainMemtable recovery 0 [0x6B] [0x76]
          ((inserter_at 5)\<lparr>rebuilding_trx := Some (WriteBatch_new 0)\<rparr>) = Some (OK, st')
        \<and> sequence st' = 5)
   \<and> plain_payload (\<lambda>x. recovered_transactions (inserter_at 5) x \<noteq> None)
        (drop kHeader (rep (run_appends (WriteBatch_new 0)
           [OpPut 0 [0x6B] [0x76], OpMarkRollback [0x74], OpMerge 0 [0x6B] [0x77],
            OpMarkCommit [0x74], OpDelete 0 [0x61]])))
   \<and> (\<exists>st'. Iterate (Inserter PlainMemtable recovery 0)
          (run_appends (WriteBatch_new 0)
             [OpPut 0 [0x6B] [0x76], OpMarkRollback [0x74], OpMerge 0 [0x6B] [0x77],
              OpMarkCommit [0x74], OpDelete 0 [0x61]]) (inserter_at 5)
          = Some (OK, st') \<and> sequence st' = 8)
   \<and> (\<exists>st'. MemTableInserter_DeleteRangeCF PlainMemtable normal_write 0 [0x61] [0x7A]
          (inserter_at 5) = Some (OK, st') \<and> sequence st' = 6)
   \<and> (\<exists>st'. MemTableInserter_DeleteRangeCF NoRangeDeletions normal_write 0 [0x61] [0x7A]
          (inserter_at 5) = Some (NotSupported ''DeleteRange not supported for table type'', st')
        \<and> sequence st' = 5)"
proof -
  let ?b = "run_appends (WriteBatch_new 0) [OpPut 0 [0x6B] [0x76], OpDelete 9 [0x61]]"
  let ?c = "run_appends (WriteBatch_new 0)
             [OpPut 0 [0x6B] [0x76], OpMarkRollback [0x74], OpMerge 0 [0x6B] [0x77],
              OpMarkCommit [0x74], OpDelete 0 [0x61]]"
  let ?st2 = "(inserter_at 5)\<lparr>rebuilding_trx := Some (WriteBatch_new 0)\<rparr>"
  have n: "rebuilding_trx (inserter_at 5) = None"
    by (simp add: inserter_at_def)
  have r: "recovering_log_number normal_write = 0"
    by (simp add: normal_write_def)
  have s: "sequence (inserter_at 5) = 5"
    by (simp add: inserter_at_def)
  have c: "Count ?b = 2"
    by code_simp
  have c3: "Count ?c = 3"
    by code_simp
  have o: "map_option fst (Iterate (Inserter PlainMemtable normal_write 0) ?b (inserter_at 5)) = Some OK"
    by code_simp
  have o3: "map_option fst (Iterate (Inserter PlainMemtable recovery 0) ?c (inserter_at 5)) = Some OK"
    by code_simp
  have pp: "plain_payload (\<lambda>x. recovered_transactions (inserter_at 5) x \<noteq> None)
      (drop kHeader (rep ?c))"
    by code_simp
  have n2: "rebuilding_trx ?st2 \<noteq> None" and s2: "sequence ?st2 = 5"
    by (simp_all add: inserter_at_def)
  from sequence_advances [of "inserter_at 5" PlainMemtable normal_write 9 "[0x6B]" "[0x76]" ?b 0] n r
  have 1: "\<exists>s st'. MemTableInserter_PutCF PlainMemtable normal_write 9 [0x6B] [0x76] (inserter_at 5)
          = Some (s, st') \<and> sequence st' = sequence (inserter_at 5) + 1"
    and 2: "\<exists>s st'. Iterate (Inserter PlainMemtable normal_write 0) ?b (inserter_at 5) = Some (s, st')
          \<and> (s = OK \<longrightarrow> sequence st' = sequence (inserter_at 5) + word_of_int (Count ?b))"
    by (blast+)
  from sequence_advances [of ?st2 PlainMemtable recovery 0 "[0x6B]" "[0x76]" ?b 0] n2
  have 3: "\<exists>st'. MemTableInserter_PutCF PlainMemtable recovery 0 [0x6B] [0x76] ?st2 = Some (OK, st')
          \<and> sequence st' = sequence ?st2"
    by blast
  from sequence_advances [of "inserter_at 5" PlainMemtable recovery 0 "[0x6B]" "[0x76]" ?c 0] n pp
  have 4: "\<exists>s st'. Iterate (Inserter PlainMemtable recovery 0) ?c (inserter_at 5) = Some (s, st')
          \<and> (s = OK \<longrightarrow> sequence st' = sequence (inserter_at 5) + word_of_int (Count ?c))"
    by blast
  from 2 o have iter: "\<exists>st'. Iterate (Inserter PlainMemtable normal_write 0) ?b (inserter_at 5)
      = Some (OK, st') \<and> sequence st' = sequence (inserter_at 5) + word_of_int (Count ?b)"
    by auto
  from 4 o3 have iter3: "\<exists>st'. Iterate (Inserter PlainMemtable recovery 0) ?c (inserter_at 5)
      = Some (OK, st') \<and> sequence st' = sequence (inserter_at 5) + word_of_int (Count ?c)"
    by auto
  have o5: "map_option fst (MemTableInserter_DeleteRangeCF PlainMemtable normal_write 0 [0x61] [0x7A]
      (inserter_at 5)) = Some OK"
    by code_simp
  have o6: "map_option fst (MemTableInserter_DeleteRangeCF NoRangeDeletions normal_write 0 [0x61] [0x7A]
      (inserter_at 5)) = Some (NotSupported ''DeleteRange not supported for table type'')"
    by code_simp
  from sequence_advances [of "inserter_at 5" PlainMemtable normal_write 0 "[0x61]" "[0x7A]" ?b 0] n
  have 5: "\<exists>s st'. MemTableInserter_DeleteRangeCF PlainMemtable normal_write 0 [0x61] [0x7A]
          (inserter_at 5) = Some (s, st')
        \<and> ((\<forall>m. s \<noteq> NotSupported m) \<longrightarrow> sequence st' = sequence (inserter_at 5) + 1)"
    by blast
  from sequence_advances [of "inserter_at 5" NoRangeDeletions normal_write 0 "[0x61]" "[0x7A]" ?b 0] n
  have 6: "\<exists>s st'. MemTableInserter_DeleteRangeCF NoRangeDeletions normal_write 0 [0x61] [0x7A]
          (inserter_at 5) = Some (s, st')
        \<and> ((\<exists>m. s = NotSupported m) \<longrightarrow> sequence st' = sequence (inserter_at 5))"
    by blast
  from 5 o5 have dr5: "\<exists>st'. MemTableInserter_DeleteRangeCF PlainMemtable normal_write 0 [0x61] [0x7A]
          (inserter_at 5) = Some (OK, st') \<and> sequence st' = sequence (inserter_at 5) + 1"
    by auto
  from 6 o6 have dr6: "\<exists>st'. MemTableInserter_DeleteRangeCF NoRangeDeletions normal_write 0 [0x61] [0x7A]
          (inserter_at 5) = Some (NotSupported ''DeleteRange not supported for table type'', st')
        \<and> sequence st' = sequence (inserter_at 5)"
    by auto
  from 1 iter 3 iter3 dr5 dr6 show ?thesis
    unfolding s s2 c c3 using n r n2 pp by simp
qed

text \<open>
  The claim as stated fails for records buffered into a rebuilding transaction: with a
  transaction under reconstruction, \<open>PutCF\<close> at sequence number 5 returns OK at sequence
  number 5; and the batch of a begin-prepare marker, one put and an end-prepare marker, whose
  count is 1, is iterated in recovery to OK with the inserter started at 5 finishing at 5,
  nothing added to the memtable. It fails for a range deletion on a column family that does
  not support it: \<open>DeleteRangeCF\<close> at sequence number 5 returns \<open>NotSupported\<close> at
  sequence number 5. And the batch-level count fails in recovery for the commit marker of a
  recovered transaction: the batch of the marker alone, whose count is 0, replays the put of
  the transaction, and the inserter started at 5 finishes at 6.
\<close>

theorem rebuilding_keeps_sequence_counterexample:
  "rebuilding_trx ((inserter_at 5)\<lparr>rebuilding_trx := Some (WriteBatch_new 0)\<rparr>)
     = Some (WriteBatch_new 0)
   \<and> map_option (\<lambda>(s, st). (s, sequence st))
        (MemTableInserter_PutCF PlainMemtable recovery 0 [0x6B] [0x76]
          ((inserter_at 5)\<lparr>rebuilding_trx := Some (WriteBatch_new 0)\<rparr>)) = Some (OK, 5)
   \<and> Count (run_appends (WriteBatch_new 0)
        [OpInsertNoop, OpPut 0 [0x6B] [0x76], OpMarkEndPrepare [0x74]]) = 1
   \<and> map_option (\<lambda>(s, st). (s, sequence st, world st))
        (Iterate (Inserter PlainMemtable recovery 1)
          (run_appends (WriteBatch_new 0)
             [OpInsertNoop, OpPut 0 [0x6B] [0x76], OpMarkEndPrepare [0x74]])
          (inserter_at 5)) = Some (OK, 5, [])
   \<and> (5 :: 64 word) \<noteq> 5 + 1
   \<and> rebuilding_trx (inserter_at 5) = None
   \<and> map_option (\<lambda>(s, st). (s, sequence st, world st))
        (MemTableInserter_DeleteRangeCF NoRangeDeletions normal_write 0 [0x61] [0x7A]
          (inserter_at 5))
       = Some (NotSupported ''DeleteRange not supported for table type'', 5, [])
   \<and> Count (run_appends (WriteBatch_new 0) [OpMarkCommit [0x74]]) = 0
   \<and> map_option (\<lambda>(s, st). (s, sequence st, world st))
        (Iterate (Inserter PlainMemtable recovery 1)
          (run_appends (WriteBatch_new 0) [OpMarkCommit [0x74]])
          ((inserter_at 5)\<lparr>recovered_transactions :=
              [[0x74] \<mapsto> (3, Some (run_appends (WriteBatch_new 0) [OpPut 0 [0x6B] [0x76]]))]\<rparr>))
       = Some (OK, 6, [MemAdd 5 kTypeValue [0x6B] [0x76]])
   \<and> (6 :: 64 word) \<noteq> 5 + 0"
  by code_simp

subsection \<open>Recovery of a prepared transaction\<close>

lemma run_appends_append: "run_appends b (X @ Y) = run_appends (run_appends b X) Y"
  by (induction X arbitrary: b) simp_all

lemma append_parts:
  "append b (OpPutParts cf k v) = append b (OpPut cf (concat k) (concat v))"
  "append b (OpDeleteParts cf k) = append b (OpDelete cf (concat k))"
  "append b (OpSingleDeleteParts cf k) = append b (OpSingleDelete cf (concat k))"
  "append b (OpDeleteRangeParts cf k v) = append b (OpDeleteRange cf (concat k) (concat v))"
  "append b (OpMergeParts cf k v) = append b (OpMerge cf (concat k) (concat v))"
  by (simp_all add: WriteBatchInternal_Put_def WriteBatchInternal_Put_parts_def
      WriteBatchInternal_Delete_def WriteBatchInternal_Delete_parts_def
      WriteBatchInternal_SingleDelete_def WriteBatchInternal_SingleDelete_parts_def
      WriteBatchInternal_DeleteRange_def WriteBatchInternal_DeleteRange_parts_def
      WriteBatchInternal_Merge_def WriteBatchInternal_Merge_parts_def
      PutLengthPrefixedSlice_lp PutLengthPrefixedSliceParts_lp)

lemma append_unbounded:
  assumes "unbounded b" and "counted x"
  shows "unbounded (snd (append b x))"
    and "drop 12 (rep (snd (append b x))) = drop 12 (rep b) @ encoded x"
    and "DecodeFixed32 (drop 8 (rep (snd (append b x)))) = DecodeFixed32 (drop 8 (rep b)) + 1"
proof -
  from assms(1) have len: "12 \<le> length (rep b)" and mb: "max_bytes b = 0"
    by (simp_all add: unbounded_def)
  have a: "append b x = (OK, b\<lparr>rep := counted_rep b (encoded x),
                 content_flags := content_flags b OR flag_of x\<rparr>)"
    using append_counted [OF len assms(2)] mb by simp
  have w: "(word_of_int (Count b + 1) :: 32 word) = DecodeFixed32 (drop 8 (rep b)) + 1"
    by (simp add: Count_def)
  show "unbounded (snd (append b x))"
    using len mb by (simp add: a unbounded_def counted_rep_def)
  show "drop 12 (rep (snd (append b x))) = drop 12 (rep b) @ encoded x"
    using header_drop12 [OF len] by (simp add: a counted_rep_def del: drop_append)
  show "DecodeFixed32 (drop 8 (rep (snd (append b x)))) = DecodeFixed32 (drop 8 (rep b)) + 1"
    using header_decode [OF len, of "word_of_int (Count b + 1)" "encoded x"] w
    by (simp add: a counted_rep_def del: drop_append)
qed

lemma run_appends_unbounded:
  "unbounded b \<Longrightarrow> list_all counted X \<Longrightarrow>
   unbounded (run_appends b X)
   \<and> drop 12 (rep (run_appends b X)) = drop 12 (rep b) @ concat (map encoded X)
   \<and> DecodeFixed32 (drop 8 (rep (run_appends b X)))
       = DecodeFixed32 (drop 8 (rep b)) + of_nat (length X)"
proof (induction X arbitrary: b)
  case Nil
  then show ?case by simp
next
  case (Cons x X)
  from Cons.prems have c: "counted x" and cs: "list_all counted X"
    by simp_all
  note a = append_unbounded [OF Cons.prems(1) c]
  from Cons.IH [OF a(1) cs] show ?case
    by (simp add: a(2,3))
qed

lemma Count_small:
  assumes "DecodeFixed32 (drop 8 (rep b)) = of_nat n" and "n < 2 ^ 31"
  shows "Count b = int n"
proof -
  have "sint (word_of_nat n :: 32 word) = int n"
    using assms(2) by (simp add: signed_of_nat signed_take_bit_int_eq_self)
  with assms(1) show ?thesis
    by (simp add: Count_def)
qed

lemma rebuild_dispatch:
  assumes "counted x" and "rebuilding_trx st = Some t"
  shows "dispatch (Inserter E cfg d) (parsed_of x) st
     = Some (OK, 1, st\<lparr>rebuilding_trx := Some (snd (append t x))\<rparr>)"
proof -
  obtain it where H: "Inserter E cfg d = MemTableInserter_Handler E cfg it"
    using Inserter_Handler by blast
  note rc = rebuilding_callbacks [OF assms(2), of E cfg]
  from assms(1) show ?thesis
    unfolding H dispatch_def
    by (cases x)
      (simp_all add: mk_parsed_def counted_call_def rc [simplified] append_parts [simplified])
qed

lemma counted_call_one:
  assumes "\<exists>r. x = Some r \<and> advanced strict st r"
  shows "\<exists>s st'. counted_call x = Some (s, 1, st') \<and> rebuilding_trx st' = None
     \<and> (s = OK \<longrightarrow> sequence st' = sequence st + 1)"
  using assms by (auto simp: counted_call_def advanced_def)

lemma counted_dispatch:
  assumes "rebuilding_trx st = None" and "counted x"
  shows "\<exists>s st'. dispatch (Inserter E cfg d) (parsed_of x) st = Some (s, 1, st')
     \<and> rebuilding_trx st' = None \<and> (s = OK \<longrightarrow> sequence st' = sequence st + 1)"
proof -
  obtain it where H: "Inserter E cfg d = MemTableInserter_Handler E cfg it"
    using Inserter_Handler by blast
  note adv = counted_call_one [OF PutCF_advances [OF assms(1)]]
    counted_call_one [OF DeleteCF_advances [OF assms(1)]]
    counted_call_one [OF SingleDeleteCF_advances [OF assms(1)]]
    counted_call_one [OF DeleteRangeCF_advances [OF assms(1)]]
    counted_call_one [OF MergeCF_advances [OF assms(1)]]
  have "\<exists>s st'. dispatch_tag (MemTableInserter_Handler E cfg it) (p_tag (parsed_of x)) (parsed_of x) st
       = Some (s, 1, st')
     \<and> rebuilding_trx st' = None \<and> (s = OK \<longrightarrow> sequence st' = sequence st + 1)"
  proof (cases x)
    case (OpPut cf k v)
    show ?thesis
      unfolding OpPut parsed_of.simps mk_parsed_def
      by (cases "cf = 0"; simp; rule adv(1))
  next
    case (OpPutParts cf k v)
    show ?thesis
      unfolding OpPutParts parsed_of.simps mk_parsed_def
      by (cases "cf = 0"; simp; rule adv(1))
  next
    case (OpDelete cf k)
    show ?thesis
      unfolding OpDelete parsed_of.simps mk_parsed_def
      by (cases "cf = 0"; simp; rule adv(2))
  next
    case (OpDeleteParts cf k)
    show ?thesis
      unfolding OpDeleteParts parsed_of.simps mk_parsed_def
      by (cases "cf = 0"; simp; rule adv(2))
  next
    case (OpSingleDelete cf k)
    show ?thesis
      unfolding OpSingleDelete parsed_of.simps mk_parsed_def
      by (cases "cf = 0"; simp; rule adv(3))
  next
    case (OpSingleDeleteParts cf k)
    show ?thesis
      unfolding OpSingleDeleteParts parsed_of.simps mk_parsed_def
      by (cases "cf = 0"; simp; rule adv(3))
  next
    case (OpDeleteRange cf k v)
    show ?thesis
      unfolding OpDeleteRange parsed_of.simps mk_parsed_def
      by (cases "cf = 0"; simp; rule adv(4))
  next
    case (OpDeleteRangeParts cf k v)
    show ?thesis
      unfolding OpDeleteRangeParts parsed_of.simps mk_parsed_def
      by (cases "cf = 0"; simp; rule adv(4))
  next
    case (OpMerge cf k v)
    show ?thesis
      unfolding OpMerge parsed_of.simps mk_parsed_def
      by (cases "cf = 0"; simp; rule adv(5))
  next
    case (OpMergeParts cf k v)
    show ?thesis
      unfolding OpMergeParts parsed_of.simps mk_parsed_def
      by (cases "cf = 0"; simp; rule adv(5))
  next
    case (OpPutLogData blob)
    with assms(2) show ?thesis by simp
  next
    case OpInsertNoop
    with assms(2) show ?thesis by simp
  next
    case (OpMarkEndPrepare xid)
    with assms(2) show ?thesis by simp
  next
    case (OpMarkCommit xid)
    with assms(2) show ?thesis by simp
  next
    case (OpMarkRollback xid)
    with assms(2) show ?thesis by simp
  qed
  then show ?thesis
    unfolding H dispatch_def .
qed

lemma rebuild_loop:
  "list_all counted X \<Longrightarrow> list_all fits X \<Longrightarrow> rebuilding_trx st = Some t \<Longrightarrow>
   Iterate_loop (Inserter E cfg d) (concat (map encoded X) @ rest) n st
     = Iterate_loop (Inserter E cfg d) rest (n + int (length X))
         (st\<lparr>rebuilding_trx := Some (run_appends t X)\<rparr>)"
proof (induction X arbitrary: n st t)
  case Nil
  then have "st\<lparr>rebuilding_trx := Some t\<rparr> = st"
    by (intro MemTableInserter.equality) simp_all
  then show ?case by simp
next
  case (Cons x X)
  from Cons.prems have c: "counted x" and f: "fits x"
    and cs: "list_all counted X" and fs: "list_all fits X"
    by simp_all
  from read_encoded [OF f] obtain c0 fs0 where e: "encoded x = c0 # fs0"
    and rd: "ReadRecordFromWriteBatch c0 (fs0 @ concat (map encoded X) @ rest)
        = Inr (parsed_of x, concat (map encoded X) @ rest)"
    by blast
  let ?st = "st\<lparr>rebuilding_trx := Some (snd (append t x))\<rparr>"
  note d = rebuild_dispatch [OF c Cons.prems(3), of E cfg d]
  have "Iterate_loop (Inserter E cfg d) (concat (map encoded (x # X)) @ rest) n st
      = Iterate_loop (Inserter E cfg d) (concat (map encoded X) @ rest) (n + 1) ?st"
    using Iterate_loop_step [OF Inserter_Continue [of E cfg d st] rd d, of n]
    by (simp add: e ok_def)
  also have "\<dots> = Iterate_loop (Inserter E cfg d) rest (n + 1 + int (length X))
      (?st\<lparr>rebuilding_trx := Some (run_appends (snd (append t x)) X)\<rparr>)"
    by (rule Cons.IH [OF cs fs]) simp
  finally show ?case
    by (simp add: add.assoc)
qed

lemma replay_loop:
  "list_all counted X \<Longrightarrow> list_all fits X \<Longrightarrow> rebuilding_trx st = None \<Longrightarrow>
   (\<exists>st'. Iterate_loop (Inserter E cfg d) (concat (map encoded X)) n st
            = Some (Exhausted (n + int (length X)) st')
          \<and> sequence st' = sequence st + of_nat (length X))
   \<or> (\<exists>s n' st'. Iterate_loop (Inserter E cfg d) (concat (map encoded X)) n st
            = Some (Failed s n' st') \<and> s \<noteq> OK)"
proof (induction X arbitrary: n st)
  case Nil
  then show ?case by simp
next
  case (Cons x X)
  from Cons.prems have c: "counted x" and f: "fits x"
    and cs: "list_all counted X" and fs: "list_all fits X"
    by simp_all
  from read_encoded [OF f] obtain c0 fs0 where e: "encoded x = c0 # fs0"
    and rd: "ReadRecordFromWriteBatch c0 (fs0 @ concat (map encoded X))
        = Inr (parsed_of x, concat (map encoded X))"
    by blast
  from counted_dispatch [OF Cons.prems(3) c, of E cfg d]
  obtain s st1 where d: "dispatch (Inserter E cfg d) (parsed_of x) st = Some (s, 1, st1)"
    and rb: "rebuilding_trx st1 = None"
    and sq: "s = OK \<longrightarrow> sequence st1 = sequence st + 1"
    by blast
  note step = Iterate_loop_step [OF Inserter_Continue [of E cfg d st] rd d, of n]
  show ?case
  proof (cases "s = OK")
    case False
    with step show ?thesis
      by (simp add: e ok_def)
  next
    case True
    with step have l: "Iterate_loop (Inserter E cfg d) (concat (map encoded (x # X))) n st
        = Iterate_loop (Inserter E cfg d) (concat (map encoded X)) (n + 1) st1"
      by (simp add: e ok_def)
    from Cons.IH [OF cs fs rb, of "n + 1"] True sq show ?thesis
      unfolding l by (auto simp: add.assoc)
  qed
qed

lemma Count_append_bytes:
  assumes "12 \<le> length r" and "12 \<le> length r'"
    and "take 12 r' = take 12 r"
  shows "DecodeFixed32 (drop 8 r') = DecodeFixed32 (drop 8 r)"
proof (rule DecodeFixed32_cong)
  have n: "r' ! i = r ! i" if "i < 12" for i
    using that assms by (metis nth_take)
  from assms n [of 8] n [of 9] n [of 10] n [of 11]
  show "drop 8 r' ! 0 = drop 8 r ! 0" "drop 8 r' ! 1 = drop 8 r ! 1"
    "drop 8 r' ! 2 = drop 8 r ! 2" "drop 8 r' ! 3 = drop 8 r ! 3"
    by simp_all
qed

lemma DecodeFixed32_zero: "DecodeFixed32 (drop 8 (replicate 12 0 @ ext)) = 0"
  by (simp add: DecodeFixed32_def nth_append)

lemma prepared_batch:
  fixes muts :: "append_op list" and xid :: bytes
  assumes "list_all counted muts" and "length muts < 2 ^ 31"
  defines "b \<equiv> run_appends (WriteBatch_new 0) (OpInsertNoop # muts @ [OpMarkEndPrepare xid])"
  shows "12 \<le> length (rep b)"
    and "drop 12 (rep b)
        = tag kTypeBeginPrepareXID # concat (map encoded muts) @ encoded (OpMarkEndPrepare xid)"
    and "Count b = int (length muts)"
proof -
  define b1 where "b1 = snd (append (WriteBatch_new 0) OpInsertNoop)"
  define b2 where "b2 = run_appends b1 muts"
  have b1: "b1 = (WriteBatch_new 0)\<lparr>rep := replicate 12 0 @ [tag kTypeNoop]\<rparr>"
    by (simp add: b1_def WriteBatchInternal_InsertNoop_def push_back_def WriteBatch_new_def
        resize_def kHeader_def del: tag.simps)
  have u1: "unbounded b1"
    by (simp add: b1 unbounded_def WriteBatch_new_def)
  have d1: "drop 12 (rep b1) = [tag kTypeNoop]"
    by (simp add: b1 del: tag.simps)
  have c1: "DecodeFixed32 (drop 8 (rep b1)) = 0"
    unfolding b1 using DecodeFixed32_zero [of "[tag kTypeNoop]"] by simp
  from run_appends_unbounded [OF u1 assms(1)]
  have u2: "unbounded b2"
    and d2: "drop 12 (rep b2) = tag kTypeNoop # concat (map encoded muts)"
    and c2: "DecodeFixed32 (drop 8 (rep b2)) = of_nat (length muts)"
    by (simp_all add: b2_def d1 c1 del: tag.simps)
  from u2 have len2: "12 \<le> length (rep b2)"
    by (simp add: unbounded_def)
  have l13: "12 < length (rep b2)"
  proof -
    have "length (drop 12 (rep b2)) > 0"
      unfolding d2 by simp
    then show ?thesis by simp
  qed
  have b: "b = snd (WriteBatchInternal_MarkEndPrepare b2 xid)"
    by (simp add: b_def b1_def b2_def run_appends_append)
  have rep: "rep b = (rep b2)[12 := tag kTypeBeginPrepareXID] @ encoded (OpMarkEndPrepare xid)"
    by (simp add: b WriteBatchInternal_MarkEndPrepare_def Let_def push_back_def
        PutLengthPrefixedSlice_lp del: tag.simps)
  show len: "12 \<le> length (rep b)"
    using len2 by (simp add: rep)
  have "drop 12 ((rep b2)[12 := tag kTypeBeginPrepareXID])
      = (drop 12 (rep b2))[0 := tag kTypeBeginPrepareXID]"
    by (simp add: drop_update_swap)
  then show "drop 12 (rep b)
        = tag kTypeBeginPrepareXID # concat (map encoded muts) @ encoded (OpMarkEndPrepare xid)"
    using l13 by (simp add: rep d2 del: tag.simps encoded.simps)
  have "take 12 (rep b) = take 12 (rep b2)"
    using l13 by (simp add: rep)
  from Count_append_bytes [OF len2 len this] c2
  have "DecodeFixed32 (drop 8 (rep b)) = of_nat (length muts)"
    by simp
  from Count_small [OF this assms(2)] show "Count b = int (length muts)" .
qed

lemma rebuilt_batch:
  fixes muts :: "append_op list"
  assumes "list_all counted muts" and "length muts < 2 ^ 31"
  defines "t \<equiv> run_appends (WriteBatch_new 0) muts"
  shows "12 \<le> length (rep t)" and "drop 12 (rep t) = concat (map encoded muts)"
    and "Count t = int (length muts)"
proof -
  have u: "unbounded (WriteBatch_new 0)"
    by (simp add: unbounded_def WriteBatch_new_def resize_def kHeader_def)
  have d0: "drop 12 (rep (WriteBatch_new 0)) = []"
    by (simp add: WriteBatch_new_def resize_def kHeader_def)
  have c0: "DecodeFixed32 (drop 8 (rep (WriteBatch_new 0))) = 0"
    using DecodeFixed32_zero [of "[]"] by (simp add: WriteBatch_new_def resize_def kHeader_def)
  from run_appends_unbounded [OF u assms(1)]
  have u2: "unbounded t" and d: "drop 12 (rep t) = concat (map encoded muts)"
    and c: "DecodeFixed32 (drop 8 (rep t)) = of_nat (length muts)"
    by (simp_all add: t_def d0 c0)
  from u2 show "12 \<le> length (rep t)"
    by (simp add: unbounded_def)
  from d show "drop 12 (rep t) = concat (map encoded muts)" .
  from Count_small [OF c assms(2)] show "Count t = int (length muts)" .
qed

lemma commit_batch:
  fixes xid :: bytes
  defines "cb \<equiv> run_appends (WriteBatch_new 0) [OpMarkCommit xid]"
  shows "12 \<le> length (rep cb)" and "drop 12 (rep cb) = encoded (OpMarkCommit xid)"
    and "Count cb = 0"
proof -
  have rep: "rep cb = replicate 12 0 @ encoded (OpMarkCommit xid)"
    by (simp add: cb_def WriteBatchInternal_MarkCommit_def Let_def push_back_def
        PutLengthPrefixedSlice_lp WriteBatch_new_def resize_def kHeader_def del: tag.simps)
  show "12 \<le> length (rep cb)" and "drop 12 (rep cb) = encoded (OpMarkCommit xid)"
    by (simp_all add: rep del: encoded.simps)
  show "Count cb = 0"
    unfolding Count_def rep DecodeFixed32_zero by simp
qed

lemma seek_refines:
  "SeekToColumnFamily E cfg cf st = (found, s, st') \<Longrightarrow>
   spec_seek_to_cf E cfg (log_number_ref st) cf (world st)
     = (if found then Selected else if s = OK then Filtered else Invalid, world st')
   \<and> (found \<longrightarrow> s = OK)"
  by (auto simp: SeekToColumnFamily_def spec_seek_to_cf_def Let_def word_gt_0
      split: prod.splits if_splits)

lemma flush_refines: "CheckMemtableFull E cfg w = spec_schedule_flush E cfg w"
  by (simp add: CheckMemtableFull_def spec_schedule_flush_def split: prod.splits)

lemma PutCF_applied:
  assumes "rebuilding_trx st = None" and "no_inplace_callback E"
  shows "\<exists>r. MemTableInserter_PutCF E cfg cf k v st = Some r \<and> applied E cfg (kTypeValue, cf, k, v) st r"
proof -
  obtain found s st1 where sk: "SeekToColumnFamily E cfg cf st = (found, s, st1)"
    by (cases "SeekToColumnFamily E cfg cf st")
  from SeekToColumnFamily_fields [OF sk] seek_refines [OF sk] assms show ?thesis
    by (cases found)
      (auto simp: MemTableInserter_PutCF_def sk Let_def applied_def spec_apply_def
        flush_refines spec_memtable_write_def put_to_memtable_def no_inplace_callback_def)
qed

lemma DeleteCF_applied:
  assumes "rebuilding_trx st = None"
  shows "\<exists>r. MemTableInserter_DeleteCF E cfg cf k st = Some r
     \<and> applied E cfg (kTypeDeletion, cf, k, []) st r"
proof -
  obtain found s st1 where sk: "SeekToColumnFamily E cfg cf st = (found, s, st1)"
    by (cases "SeekToColumnFamily E cfg cf st")
  from SeekToColumnFamily_fields [OF sk] seek_refines [OF sk] assms show ?thesis
    by (cases found)
      (auto simp: MemTableInserter_DeleteCF_def sk Let_def applied_def spec_apply_def
        flush_refines spec_memtable_write_def DeleteImpl_def)
qed

lemma SingleDeleteCF_applied:
  assumes "rebuilding_trx st = None"
  shows "\<exists>r. MemTableInserter_SingleDeleteCF E cfg cf k st = Some r
     \<and> applied E cfg (kTypeSingleDeletion, cf, k, []) st r"
proof -
  obtain found s st1 where sk: "SeekToColumnFamily E cfg cf st = (found, s, st1)"
    by (cases "SeekToColumnFamily E cfg cf st")
  from SeekToColumnFamily_fields [OF sk] seek_refines [OF sk] assms show ?thesis
    by (cases found)
      (auto simp: MemTableInserter_SingleDeleteCF_def sk Let_def applied_def spec_apply_def
        flush_refines spec_memtable_write_def DeleteImpl_def)
qed

lemma DeleteRangeCF_applied:
  assumes "rebuilding_trx st = None" and "db_present cfg"
  shows "\<exists>r. MemTableInserter_DeleteRangeCF E cfg cf k v st = Some r
     \<and> applied E cfg (kTypeRangeDeletion, cf, k, v) st r"
proof -
  obtain found s st1 where sk: "SeekToColumnFamily E cfg cf st = (found, s, st1)"
    by (cases "SeekToColumnFamily E cfg cf st")
  from SeekToColumnFamily_fields [OF sk] seek_refines [OF sk] assms show ?thesis
    by (cases found)
      (auto simp: MemTableInserter_DeleteRangeCF_def sk Let_def applied_def spec_apply_def
        flush_refines spec_memtable_write_def DeleteImpl_def)
qed

lemma MergeCF_applied:
  assumes "rebuilding_trx st = None"
  shows "\<exists>r. MemTableInserter_MergeCF E cfg cf k v st = Some r
     \<and> applied E cfg (kTypeMerge, cf, k, v) st r"
proof -
  obtain found s st1 where sk: "SeekToColumnFamily E cfg cf st = (found, s, st1)"
    by (cases "SeekToColumnFamily E cfg cf st")
  from SeekToColumnFamily_fields [OF sk] seek_refines [OF sk] assms show ?thesis
    by (cases found)
      (auto simp: MemTableInserter_MergeCF_def sk Let_def applied_def spec_apply_def
        flush_refines spec_memtable_write_def merge_to_memtable_def ok_def split: prod.splits)
qed

lemma counted_call_applied:
  assumes "\<exists>r. x = Some r \<and> applied E cfg m st r"
  shows "\<exists>s st'. counted_call x = Some (s, 1, st') \<and> applied E cfg m st (s, st')"
  using assms by (auto simp: counted_call_def)

lemma applied_dispatch:
  assumes "rebuilding_trx st = None" and "counted x" and "db_present cfg"
    and "no_inplace_callback E"
  shows "\<exists>s st'. dispatch (Inserter E cfg d) (parsed_of x) st = Some (s, 1, st')
     \<and> applied E cfg (mutation x) st (s, st')"
proof -
  obtain it where H: "Inserter E cfg d = MemTableInserter_Handler E cfg it"
    using Inserter_Handler by blast
  note adv = counted_call_applied [OF PutCF_applied [OF assms(1,4)]]
    counted_call_applied [OF DeleteCF_applied [OF assms(1)]]
    counted_call_applied [OF SingleDeleteCF_applied [OF assms(1)]]
    counted_call_applied [OF DeleteRangeCF_applied [OF assms(1,3)]]
    counted_call_applied [OF MergeCF_applied [OF assms(1)]]
  have "\<exists>s st'. dispatch_tag (MemTableInserter_Handler E cfg it) (p_tag (parsed_of x)) (parsed_of x) st
       = Some (s, 1, st')
     \<and> applied E cfg (mutation x) st (s, st')"
  proof (cases x)
    case (OpPut cf k v)
    show ?thesis
      unfolding OpPut parsed_of.simps mk_parsed_def
      by (cases "cf = 0"; simp; rule adv(1))
  next
    case (OpPutParts cf k v)
    show ?thesis
      unfolding OpPutParts parsed_of.simps mk_parsed_def
      by (cases "cf = 0"; simp; rule adv(1))
  next
    case (OpDelete cf k)
    show ?thesis
      unfolding OpDelete parsed_of.simps mk_parsed_def
      by (cases "cf = 0"; simp; rule adv(2))
  next
    case (OpDeleteParts cf k)
    show ?thesis
      unfolding OpDeleteParts parsed_of.simps mk_parsed_def
      by (cases "cf = 0"; simp; rule adv(2))
  next
    case (OpSingleDelete cf k)
    show ?thesis
      unfolding OpSingleDelete parsed_of.simps mk_parsed_def
      by (cases "cf = 0"; simp; rule adv(3))
  next
    case (OpSingleDeleteParts cf k)
    show ?thesis
      unfolding OpSingleDeleteParts parsed_of.simps mk_parsed_def
      by (cases "cf = 0"; simp; rule adv(3))
  next
    case (OpDeleteRange cf k v)
    show ?thesis
      unfolding OpDeleteRange parsed_of.simps mk_parsed_def
      by (cases "cf = 0"; simp; rule adv(4))
  next
    case (OpDeleteRangeParts cf k v)
    show ?thesis
      unfolding OpDeleteRangeParts parsed_of.simps mk_parsed_def
      by (cases "cf = 0"; simp; rule adv(4))
  next
    case (OpMerge cf k v)
    show ?thesis
      unfolding OpMerge parsed_of.simps mk_parsed_def
      by (cases "cf = 0"; simp; rule adv(5))
  next
    case (OpMergeParts cf k v)
    show ?thesis
      unfolding OpMergeParts parsed_of.simps mk_parsed_def
      by (cases "cf = 0"; simp; rule adv(5))
  next
    case (OpPutLogData blob)
    with assms(2) show ?thesis by simp
  next
    case OpInsertNoop
    with assms(2) show ?thesis by simp
  next
    case (OpMarkEndPrepare xid)
    with assms(2) show ?thesis by simp
  next
    case (OpMarkCommit xid)
    with assms(2) show ?thesis by simp
  next
    case (OpMarkRollback xid)
    with assms(2) show ?thesis by simp
  qed
  then show ?thesis
    unfolding H dispatch_def .
qed

lemma applied_loop:
  "list_all counted X \<Longrightarrow> list_all fits X \<Longrightarrow> rebuilding_trx st = None \<Longrightarrow>
   db_present cfg \<Longrightarrow> no_inplace_callback E \<Longrightarrow>
   \<exists>e. Iterate_loop (Inserter E cfg d) (concat (map encoded X)) n st = Some e
     \<and> ((\<exists>st'. e = Exhausted (n + int (length X)) st') \<or> (\<exists>s n' st'. e = Failed s n' st' \<and> s \<noteq> OK))
     \<and> spec_replay E cfg (log_number_ref st) X (sequence st) (world st)
         = (\<exists>n' st'. e = Exhausted n' st', sequence (exit_state e), world (exit_state e))
     \<and> rebuilding_trx (exit_state e) = None
     \<and> recovered_transactions (exit_state e) = recovered_transactions st
     \<and> log_number_ref (exit_state e) = log_number_ref st"
proof (induction X arbitrary: n st)
  case Nil
  then show ?case by simp
next
  case (Cons x X)
  from Cons.prems have c: "counted x" and f: "fits x"
    and cs: "list_all counted X" and fs: "list_all fits X"
    by simp_all
  from read_encoded [OF f] obtain c0 fs0 where e: "encoded x = c0 # fs0"
    and rd: "ReadRecordFromWriteBatch c0 (fs0 @ concat (map encoded X))
        = Inr (parsed_of x, concat (map encoded X))"
    by blast
  from applied_dispatch [OF Cons.prems(3) c Cons.prems(4,5), of d]
  obtain s st1 where d: "dispatch (Inserter E cfg d) (parsed_of x) st = Some (s, 1, st1)"
    and ap: "applied E cfg (mutation x) st (s, st1)"
    by blast
  from ap have sa: "spec_apply E cfg (log_number_ref st) (mutation x) (sequence st) (world st)
      = (s = OK, sequence st1, world st1)"
    and rb: "rebuilding_trx st1 = None"
    and tb: "recovered_transactions st1 = recovered_transactions st"
    and lr: "log_number_ref st1 = log_number_ref st"
    by (simp_all add: applied_def)
  note step = Iterate_loop_step [OF Inserter_Continue [of E cfg d st] rd d, where found = n]
  show ?case
  proof (cases "s = OK")
    case False
    with step have "Iterate_loop (Inserter E cfg d) (concat (map encoded (x # X))) n st
        = Some (Failed s (n + 1) st1)"
      by (simp add: e ok_def)
    with False sa rb tb lr show ?thesis
      by simp
  next
    case True
    with step have l: "Iterate_loop (Inserter E cfg d) (concat (map encoded (x # X))) n st
        = Iterate_loop (Inserter E cfg d) (concat (map encoded X)) (n + 1) st1"
      by (simp add: e ok_def)
    have sr: "spec_replay E cfg (log_number_ref st) (x # X) (sequence st) (world st)
        = spec_replay E cfg (log_number_ref st1) X (sequence st1) (world st1)"
      using sa True lr by simp
    from Cons.IH [OF cs fs rb Cons.prems(4,5), of "n + 1"] show ?thesis
      unfolding l sr tb lr by (simp add: add.assoc)
  qed
qed

lemma applied_Iterate:
  assumes "list_all counted X" and "length X < 2 ^ 31" and "list_all fits X"
    and "rebuilding_trx st = None" and "db_present cfg" and "no_inplace_callback E"
  shows "\<exists>s st'. Iterate (Inserter E cfg d) (run_appends (WriteBatch_new 0) X) st = Some (s, st')
     \<and> spec_replay E cfg (log_number_ref st) X (sequence st) (world st)
         = (s = OK, sequence st', world st')
     \<and> rebuilding_trx st' = None
     \<and> recovered_transactions st' = recovered_transactions st
     \<and> log_number_ref st' = log_number_ref st"
proof -
  note tb = rebuilt_batch [OF assms(1,2)]
  from applied_loop [OF assms(1,3,4,5,6), of d 0]
  obtain e where e: "Iterate_loop (Inserter E cfg d) (concat (map encoded X)) 0 st = Some e"
    and sh: "(\<exists>st'. e = Exhausted (int (length X)) st') \<or> (\<exists>s n' st'. e = Failed s n' st' \<and> s \<noteq> OK)"
    and sr: "spec_replay E cfg (log_number_ref st) X (sequence st) (world st)
         = (\<exists>n' st'. e = Exhausted n' st', sequence (exit_state e), world (exit_state e))"
    and inv: "rebuilding_trx (exit_state e) = None"
      "recovered_transactions (exit_state e) = recovered_transactions st"
      "log_number_ref (exit_state e) = log_number_ref st"
    by auto
  from sh show ?thesis
  proof (elim disjE exE conjE)
    fix st'
    assume "e = Exhausted (int (length X)) st'"
    with e tb sr inv show ?thesis
      by (simp add: Iterate_def kHeader_def)
  next
    fix s n' st'
    assume "e = Failed s n' st'" and "s \<noteq> OK"
    with e tb sr inv show ?thesis
      by (simp add: Iterate_def kHeader_def)
  qed
qed

text \<open>
  Claim C4. In recovery (\<open>recovering_log_number_\<close> not 0, a database that allows
  two-phase commit, no transaction under reconstruction), let the batch \<open>b\<close> hold a
  begin-prepare marker, the counted records \<open>muts\<close> (fewer than \<open>2 ^ 31\<close>, strings
  shorter than \<open>2 ^ 32\<close> bytes) and the end-prepare marker of \<open>xid\<close>. Iterating
  \<open>b\<close> returns OK, leaves the collaborators, hence every memtable, and the sequence number
  as they were, and leaves under \<open>xid\<close> in the recovered-transactions table the log number
  and the rebuilt batch \<open>t\<close>: a new batch with exactly the appends \<open>muts\<close>. Iterating
  then a batch with the commit marker of \<open>xid\<close> through the same inserter iterates
  \<open>t\<close> through it, with the log reference bound to the log number meanwhile: it returns
  when that iteration does, has its final state but for the log reference reset and the
  output flag set, and has removed \<open>xid\<close> from the table exactly when the iteration
  returned OK. The replay of \<open>t\<close> does return, and when it returns OK the sequence number
  has advanced by the number of records. What the replay does to the memtables is what the
  specification says of the records \<open>muts\<close> in their order (\<open>spec_replay\<close>, for
  memtables without an in-place callback): the commit returns OK with the sequence number
  and the collaborators that this replay ends with, started at the sequence number and the
  collaborators before the prepare section with the log reference of the transaction; the
  transaction is removed from the table when every record succeeded and kept otherwise,
  and the other entries of the table are as before.
\<close>

theorem recovery_rebuilds_then_commits:
  fixes E :: "'w Collaborators" and cfg :: Options and st :: "'w MemTableInserter"
    and muts :: "append_op list" and xid :: bytes
  assumes "recovering_log_number cfg \<noteq> 0" and "db_allow_2pc E (world st)"
    and "rebuilding_trx st = None"
    and "list_all counted muts" and "list_all fits muts" and "length muts < 2 ^ 31"
    and "length xid < 2 ^ 32" and "db_present cfg"
  defines "b \<equiv> run_appends (WriteBatch_new 0) (OpInsertNoop # muts @ [OpMarkEndPrepare xid])"
  defines "t \<equiv> run_appends (WriteBatch_new 0) muts"
  defines "cb \<equiv> run_appends (WriteBatch_new 0) [OpMarkCommit xid]"
  defines "st1 \<equiv> set_has_valid_writes
          (st\<lparr>recovered_transactions :=
                (recovered_transactions st)(xid \<mapsto> (recovering_log_number cfg, Some t))\<rparr>)"
  shows "Iterate (Inserter E cfg d) b st = Some (OK, st1)
    \<and> world st1 = world st \<and> sequence st1 = sequence st \<and> rebuilding_trx st1 = None
    \<and> recovered_transactions st1 xid = Some (recovering_log_number cfg, Some t)
    \<and> Iterate (Inserter E cfg (Suc d)) cb st1 =
        (case Iterate (Inserter E cfg d) t (st1\<lparr>log_number_ref := recovering_log_number cfg\<rparr>) of
           None \<Rightarrow> None
         | Some (s, st2) \<Rightarrow>
             Some (OK, set_has_valid_writes
                         (if ok s then DeleteRecoveredTransaction xid (st2\<lparr>log_number_ref := 0\<rparr>)
                          else st2\<lparr>log_number_ref := 0\<rparr>)))
    \<and> (\<exists>s st2. Iterate (Inserter E cfg d) t (st1\<lparr>log_number_ref := recovering_log_number cfg\<rparr>)
                   = Some (s, st2)
          \<and> (s = OK \<longrightarrow> sequence st2 = sequence st + of_nat (length muts)))
    \<and> (no_inplace_callback E \<longrightarrow>
        (case spec_replay E cfg (recovering_log_number cfg) muts (sequence st) (world st) of
           (success, seq3, w3) \<Rightarrow>
             \<exists>st3. Iterate (Inserter E cfg (Suc d)) cb st1 = Some (OK, st3)
               \<and> sequence st3 = seq3 \<and> world st3 = w3
               \<and> recovered_transactions st3
                   = (if success then (recovered_transactions st)(xid := None)
                      else (recovered_transactions st)(xid \<mapsto> (recovering_log_number cfg, Some t)))
               \<and> rebuilding_trx st3 = None \<and> log_number_ref st3 = 0))"
proof -
  let ?H = "Inserter E cfg d"
  obtain it where H: "?H = MemTableInserter_Handler E cfg it"
    using Inserter_Handler by blast
  let ?log = "recovering_log_number cfg"
  \<comment> \<open>the prepare section\<close>
  note pb = prepared_batch [OF assms(4,6), of xid, folded b_def]
  define sta where "sta = set_has_valid_writes (st\<lparr>rebuilding_trx := Some (WriteBatch_new 0)\<rparr>)"
  define stb where "stb = sta\<lparr>rebuilding_trx := Some t\<rparr>"
  have rd_begin: "ReadRecordFromWriteBatch (tag kTypeBeginPrepareXID) p
      = Inr (mk_parsed kTypeBeginPrepareXID 0 [] [] [] [], p)" for p
    by (simp add: ReadRecordFromWriteBatch_def mk_parsed_def del: tag.simps)
  have d_begin: "dispatch ?H (mk_parsed kTypeBeginPrepareXID 0 [] [] [] []) st = Some (OK, 0, sta)"
    unfolding H using assms(1,2)
    by (simp add: dispatch_def mk_parsed_def marker_call_def MemTableInserter_MarkBeginPrepare_def
        sta_def)
  have fx: "fits (OpMarkEndPrepare xid)"
    using assms(7) by simp
  from read_encoded [OF fx] obtain c0 fs0 where e: "encoded (OpMarkEndPrepare xid) = c0 # fs0"
    and rd_end: "ReadRecordFromWriteBatch c0 (fs0 @ []) = Inr (parsed_of (OpMarkEndPrepare xid), [])"
    by blast
  have stc: "(InsertRecoveredTransaction ?log xid (rebuilding_trx stb) stb)\<lparr>rebuilding_trx := None\<rparr>
      = st1"
    using assms(3)
    by (intro MemTableInserter.equality)
      (simp_all add: st1_def stb_def sta_def InsertRecoveredTransaction_def
        set_has_valid_writes_def split: option.splits)
  have d_end: "dispatch ?H (parsed_of (OpMarkEndPrepare xid)) stb = Some (OK, 0, st1)"
    unfolding H using assms(1) stc
    by (simp add: dispatch_def mk_parsed_def marker_call_def MemTableInserter_MarkEndPrepare_def)
  have ra: "rebuilding_trx sta = Some (WriteBatch_new 0)"
    by (simp add: sta_def)
  have "Iterate_loop ?H (drop 12 (rep b)) 0 st
      = Iterate_loop ?H (concat (map encoded muts) @ encoded (OpMarkEndPrepare xid)) 0 sta"
    unfolding pb(2)
    using Iterate_loop_step [OF Inserter_Continue [of E cfg d st]
        rd_begin [of "concat (map encoded muts) @ encoded (OpMarkEndPrepare xid)"] d_begin,
        where found = 0]
    by (simp add: ok_def)
  also have "\<dots> = Iterate_loop ?H (encoded (OpMarkEndPrepare xid)) (int (length muts)) stb"
    using rebuild_loop [OF assms(4,5) ra, where E = E and cfg = cfg and d = d
          and rest = "encoded (OpMarkEndPrepare xid)" and n = 0]
    by (simp add: stb_def t_def)
  also have "\<dots> = Some (Exhausted (int (length muts)) st1)"
    unfolding e
    using Iterate_loop_step [OF Inserter_Continue [of E cfg d stb] rd_end [unfolded append_Nil2] d_end,
        where found = "int (length muts)"]
    by (simp add: ok_def)
  finally have part1: "Iterate ?H b st = Some (OK, st1)"
    using pb(1,3) by (simp add: Iterate_def kHeader_def)
  have fields: "world st1 = world st" "sequence st1 = sequence st" "rebuilding_trx st1 = None"
    "recovered_transactions st1 xid = Some (?log, Some t)"
    using assms(3) by (simp_all add: st1_def)
  \<comment> \<open>the replay of the rebuilt batch\<close>
  note tb = rebuilt_batch [OF assms(4,6), folded t_def]
  let ?st1 = "st1\<lparr>log_number_ref := ?log\<rparr>"
  have rb1: "rebuilding_trx ?st1 = None"
    using fields by simp
  have part3: "\<exists>s st2. Iterate ?H t ?st1 = Some (s, st2)
          \<and> (s = OK \<longrightarrow> sequence st2 = sequence st + of_nat (length muts))"
    using replay_loop [OF assms(4,5) rb1, where E = E and cfg = cfg and d = d and n = 0]
  proof (elim disjE exE conjE)
    fix st'
    assume "Iterate_loop ?H (concat (map encoded muts)) 0 ?st1
        = Some (Exhausted (0 + int (length muts)) st')"
      and "sequence st' = sequence ?st1 + of_nat (length muts)"
    with tb fields show ?thesis
      by (simp add: Iterate_def kHeader_def)
  next
    fix s n' st'
    assume "Iterate_loop ?H (concat (map encoded muts)) 0 ?st1 = Some (Failed s n' st')"
      and "s \<noteq> OK"
    with tb show ?thesis
      by (simp add: Iterate_def kHeader_def)
  qed
  \<comment> \<open>the commit marker\<close>
  note cbb = commit_batch [of xid, folded cb_def]
  have fc: "fits (OpMarkCommit xid)"
    using assms(7) by simp
  from read_encoded [OF fc] obtain c1 fs1 where e1: "encoded (OpMarkCommit xid) = c1 # fs1"
    and rd_c: "ReadRecordFromWriteBatch c1 (fs1 @ []) = Inr (parsed_of (OpMarkCommit xid), [])"
    by blast
  note cbc = cbb [unfolded e1]
  let ?H' = "Inserter E cfg (Suc d)"
  let ?p = "parsed_of (OpMarkCommit xid)"
  have mc: "dispatch ?H' ?p st1
      = marker_call (MemTableInserter_MarkCommit (\<lambda>batch st. Iterate ?H batch st) cfg xid st1)"
    by (simp add: dispatch_def mk_parsed_def)
  have part2: "Iterate ?H' cb st1 =
        (case Iterate ?H t ?st1 of
           None \<Rightarrow> None
         | Some (s, st2) \<Rightarrow>
             Some (OK, set_has_valid_writes
                         (if ok s then DeleteRecoveredTransaction xid (st2\<lparr>log_number_ref := 0\<rparr>)
                          else st2\<lparr>log_number_ref := 0\<rparr>)))"
  proof (cases "Iterate ?H t ?st1")
    case None
    have "dispatch ?H' ?p st1 = None"
      unfolding mc using assms(1) fields(4) None
      by (simp add: MemTableInserter_MarkCommit_def GetRecoveredTransaction_def marker_call_def)
    from Iterate_loop_diverge [OF Inserter_Continue [of E cfg "Suc d" st1] rd_c [unfolded append_Nil2] this,
        where found = 0]
    have "Iterate ?H' cb st1 = None"
      using cbc by (simp add: Iterate_def kHeader_def del: Inserter.simps)
    then show ?thesis
      unfolding None by simp
  next
    case (Some r)
    obtain s st2 where r: "r = (s, st2)"
      by (cases r)
    let ?st' = "set_has_valid_writes
                         (if ok s then DeleteRecoveredTransaction xid (st2\<lparr>log_number_ref := 0\<rparr>)
                          else st2\<lparr>log_number_ref := 0\<rparr>)"
    have "dispatch ?H' ?p st1 = Some (OK, 0, ?st')"
      unfolding mc using assms(1) fields(4) Some r
      by (simp add: MemTableInserter_MarkCommit_def GetRecoveredTransaction_def marker_call_def
          Let_def)
    from Iterate_loop_step [OF Inserter_Continue [of E cfg "Suc d" st1] rd_c [unfolded append_Nil2] this,
        where found = 0]
    have "Iterate_loop ?H' (c1 # fs1) 0 st1 = Some (Exhausted 0 ?st')"
      by (simp add: ok_def del: Inserter.simps)
    with cbc have "Iterate ?H' cb st1 = Some (OK, ?st')"
      by (simp add: Iterate_def kHeader_def del: Inserter.simps)
    then show ?thesis
      unfolding Some r by simp
  qed
  have part4: "case spec_replay E cfg ?log muts (sequence st) (world st) of
           (success, seq3, w3) \<Rightarrow>
             \<exists>st3. Iterate ?H' cb st1 = Some (OK, st3)
               \<and> sequence st3 = seq3 \<and> world st3 = w3
               \<and> recovered_transactions st3
                   = (if success then (recovered_transactions st)(xid := None)
                      else (recovered_transactions st)(xid \<mapsto> (?log, Some t)))
               \<and> rebuilding_trx st3 = None \<and> log_number_ref st3 = 0"
    if nic: "no_inplace_callback E"
  proof -
    from applied_Iterate [OF assms(4,6,5) rb1 assms(8) nic, of d, folded t_def]
    obtain s st2 where it: "Iterate ?H t ?st1 = Some (s, st2)"
      and sr: "spec_replay E cfg (log_number_ref ?st1) muts (sequence ?st1) (world ?st1)
          = (s = OK, sequence st2, world st2)"
      and rb2: "rebuilding_trx st2 = None"
      and tb2: "recovered_transactions st2 = recovered_transactions ?st1"
      by blast
    let ?st3 = "set_has_valid_writes
                  (if ok s then DeleteRecoveredTransaction xid (st2\<lparr>log_number_ref := 0\<rparr>)
                   else st2\<lparr>log_number_ref := 0\<rparr>)"
    from part2 it have c: "Iterate ?H' cb st1 = Some (OK, ?st3)"
      by simp
    have sr': "spec_replay E cfg ?log muts (sequence st) (world st)
        = (s = OK, sequence st2, world st2)"
      using sr fields by simp
    have tb1: "recovered_transactions st1 = (recovered_transactions st)(xid \<mapsto> (?log, Some t))"
      by (simp add: st1_def)
    have f3: "sequence ?st3 = sequence st2" "world ?st3 = world st2"
      "recovered_transactions ?st3
         = (if s = OK then (recovered_transactions st)(xid := None)
            else (recovered_transactions st)(xid \<mapsto> (?log, Some t)))"
      "rebuilding_trx ?st3 = None" "log_number_ref ?st3 = 0"
      using rb2 tb2 tb1 by (simp_all add: ok_def DeleteRecoveredTransaction_def)
    show ?thesis
      unfolding sr' prod.case c using f3 by blast
  qed
  from part1 fields part2 part3 part4 show ?thesis
    by blast
qed

theorem recovery_rebuilds_then_commits_witness:
  "recovering_log_number recovery \<noteq> 0 \<and> db_allow_2pc PlainMemtable (world (inserter_at 5))
   \<and> rebuilding_trx (inserter_at 5) = None
   \<and> list_all counted [OpPut 0 [0x6B] [0x76], OpDelete 0 [0x61], OpSingleDelete 0 [0x62],
              OpDeleteRange 0 [0x63] [0x65], OpMerge 0 [0x6B] [0x77]]
   \<and> list_all fits [OpPut 0 [0x6B] [0x76], OpDelete 0 [0x61], OpSingleDelete 0 [0x62],
              OpDeleteRange 0 [0x63] [0x65], OpMerge 0 [0x6B] [0x77]]
   \<and> db_present recovery \<and> no_inplace_callback PlainMemtable
   \<and> (\<exists>st1. Iterate (Inserter PlainMemtable recovery 0)
          (run_appends (WriteBatch_new 0)
             [OpInsertNoop, OpPut 0 [0x6B] [0x76], OpDelete 0 [0x61], OpSingleDelete 0 [0x62],
              OpDeleteRange 0 [0x63] [0x65], OpMerge 0 [0x6B] [0x77], OpMarkEndPrepare [0x74]])
          (inserter_at 5) = Some (OK, st1)
        \<and> world st1 = [] \<and> sequence st1 = 5
        \<and> recovered_transactions st1 [0x74]
            = Some (3, Some (run_appends (WriteBatch_new 0)
                [OpPut 0 [0x6B] [0x76], OpDelete 0 [0x61], OpSingleDelete 0 [0x62],
              OpDeleteRange 0 [0x63] [0x65], OpMerge 0 [0x6B] [0x77]]))
        \<and> (\<exists>st3. Iterate (Inserter PlainMemtable recovery 1)
               (run_appends (WriteBatch_new 0) [OpMarkCommit [0x74]]) st1 = Some (OK, st3)
             \<and> world st3 = [MemAdd 5 kTypeValue [0x6B] [0x76], MemAdd 6 kTypeDeletion [0x61] [],
                 MemAdd 7 kTypeSingleDeletion [0x62] [], MemAdd 8 kTypeRangeDeletion [0x63] [0x65],
                 MemAdd 9 kTypeMerge [0x6B] [0x77]]
             \<and> sequence st3 = 10
             \<and> recovered_transactions st3 [0x74] = None))"
proof -
  let ?muts = "[OpPut 0 [0x6B] [0x76], OpDelete 0 [0x61], OpSingleDelete 0 [0x62],
              OpDeleteRange 0 [0x63] [0x65], OpMerge 0 [0x6B] [0x77]]"
  let ?xid = "[0x74] :: bytes"
  let ?t = "run_appends (WriteBatch_new 0) ?muts"
  let ?w = "[MemAdd 5 kTypeValue [0x6B] [0x76], MemAdd 6 kTypeDeletion [0x61] [],
                 MemAdd 7 kTypeSingleDeletion [0x62] [], MemAdd 8 kTypeRangeDeletion [0x63] [0x65],
                 MemAdd 9 kTypeMerge [0x6B] [0x77]]"
  let ?st1 = "set_has_valid_writes
          ((inserter_at 5)\<lparr>recovered_transactions :=
                (recovered_transactions (inserter_at 5))(?xid \<mapsto> (recovering_log_number recovery, Some ?t))\<rparr>)"
  have h1: "recovering_log_number recovery \<noteq> 0"
    by (simp add: recovery_def)
  have h2: "db_allow_2pc PlainMemtable (world (inserter_at 5))"
    by (simp add: PlainMemtable_def)
  have h3: "rebuilding_trx (inserter_at 5) = None"
    by (simp add: inserter_at_def)
  have h4: "list_all counted ?muts" and h5: "list_all fits ?muts"
    by simp_all
  have h6: "length ?muts < 2 ^ 31" and h7: "length ?xid < 2 ^ 32"
    by simp_all
  have h8: "db_present recovery"
    by (simp add: recovery_def)
  have h9: "no_inplace_callback PlainMemtable"
    by (simp add: no_inplace_callback_def PlainMemtable_def)
  have r: "recovering_log_number recovery = 3" and w: "world (inserter_at 5) = []"
    and s: "sequence (inserter_at 5) = 5"
    by (simp_all add: recovery_def inserter_at_def)
  have sr: "spec_replay PlainMemtable recovery 3 ?muts 5 [] = (True, 10, ?w)"
    by code_simp
  note th = recovery_rebuilds_then_commits [OF h1 h2 h3 h4 h5 h6 h7 h8, where d = 0]
  from th
  have p1: "Iterate (Inserter PlainMemtable recovery 0)
          (run_appends (WriteBatch_new 0) (OpInsertNoop # ?muts @ [OpMarkEndPrepare ?xid]))
          (inserter_at 5) = Some (OK, ?st1)"
    and p2: "world ?st1 = world (inserter_at 5)" "sequence ?st1 = sequence (inserter_at 5)"
      "recovered_transactions ?st1 ?xid = Some (recovering_log_number recovery, Some ?t)"
    by (blast+)
  have p4: "case spec_replay PlainMemtable recovery (recovering_log_number recovery) ?muts
                (sequence (inserter_at 5)) (world (inserter_at 5)) of
           (success, seq3, w3) \<Rightarrow>
             \<exists>st3. Iterate (Inserter PlainMemtable recovery (Suc 0))
                     (run_appends (WriteBatch_new 0) [OpMarkCommit ?xid]) ?st1 = Some (OK, st3)
               \<and> sequence st3 = seq3 \<and> world st3 = w3
               \<and> recovered_transactions st3
                   = (if success then (recovered_transactions (inserter_at 5))(?xid := None)
                      else (recovered_transactions (inserter_at 5))
                             (?xid \<mapsto> (recovering_log_number recovery, Some ?t)))
               \<and> rebuilding_trx st3 = None \<and> log_number_ref st3 = 0"
    by (rule th [THEN conjunct2, THEN conjunct2, THEN conjunct2, THEN conjunct2, THEN conjunct2,
          THEN conjunct2, THEN conjunct2, THEN mp, OF h9])
  from p4 obtain st3 where c: "Iterate (Inserter PlainMemtable recovery (Suc 0))
        (run_appends (WriteBatch_new 0) [OpMarkCommit ?xid]) ?st1 = Some (OK, st3)"
    and f3: "sequence st3 = 10" "world st3 = ?w"
      "recovered_transactions st3 = (recovered_transactions (inserter_at 5))(?xid := None)"
    unfolding r s w sr prod.case by auto
  from f3(3) have t3: "recovered_transactions st3 ?xid = None"
    by simp
  from c f3(1,2) t3 have e3: "\<exists>st3. Iterate (Inserter PlainMemtable recovery 1)
               (run_appends (WriteBatch_new 0) [OpMarkCommit ?xid]) ?st1 = Some (OK, st3)
             \<and> world st3 = ?w \<and> sequence st3 = 10
             \<and> recovered_transactions st3 ?xid = None"
    unfolding One_nat_def by blast
  have a: "OpInsertNoop # ?muts @ [OpMarkEndPrepare ?xid]
      = [OpInsertNoop, OpPut 0 [0x6B] [0x76], OpDelete 0 [0x61], OpSingleDelete 0 [0x62],
              OpDeleteRange 0 [0x63] [0x65], OpMerge 0 [0x6B] [0x77], OpMarkEndPrepare [0x74]]"
    by simp
  from p1 p2 e3 have "\<exists>st1. Iterate (Inserter PlainMemtable recovery 0)
          (run_appends (WriteBatch_new 0)
             [OpInsertNoop, OpPut 0 [0x6B] [0x76], OpDelete 0 [0x61], OpSingleDelete 0 [0x62],
              OpDeleteRange 0 [0x63] [0x65], OpMerge 0 [0x6B] [0x77], OpMarkEndPrepare [0x74]])
          (inserter_at 5) = Some (OK, st1)
        \<and> world st1 = [] \<and> sequence st1 = 5
        \<and> recovered_transactions st1 [0x74] = Some (3, Some ?t)
        \<and> (\<exists>st3. Iterate (Inserter PlainMemtable recovery 1)
               (run_appends (WriteBatch_new 0) [OpMarkCommit [0x74]]) st1 = Some (OK, st3)
             \<and> world st3 = ?w \<and> sequence st3 = 10
             \<and> recovered_transactions st3 [0x74] = None)"
    unfolding a r w s by blast
  with h1 h2 h3 h4 h5 h8 h9 show ?thesis
    by blast
qed

end
